theory Spec2Isabelle
  imports Main
begin

section \<open>The lease store\<close>

text \<open>
  The node talks to a Redis/Valkey server through four commands and \<open>QUIT\<close>. The server
  is an external collaborator; its commands follow the store contract (conditional set
  with expiry, get, expiry refresh, delete) and Redis's documented behaviour for a
  non-positive expiry: \<open>SET ... EX\<close> rejects it, \<open>EXPIRE\<close> deletes the key.
  A key holds a value and the absolute time at which it expires; a key whose expiry
  has been reached is not visible any more. \<open>QUIT\<close> changes nothing in the store; the
  model keeps no state of the client, so that the client is closed after \<open>QUIT\<close> shows
  only in the handlers that run afterwards: their commands are rejected.
\<close>

type_synonym key = string
type_synonym ident = string

record kvstore =
  clock :: nat
  kv :: "key \<Rightarrow> (ident \<times> nat) option"

definition holder :: "kvstore \<Rightarrow> key \<Rightarrow> ident option" where
  "holder s k = (case kv s k of None \<Rightarrow> None
                 | Some (v, e) \<Rightarrow> if clock s < e then Some v else None)"

datatype cmd = SET_NX_EX key ident int | GET key | EXPIRE key int | DEL key | QUIT

text \<open>A reply of the client: a rejected promise (\<open>Threw\<close>), \<open>null\<close>, \<open>'OK'\<close>, a string, a number.\<close>

datatype reply = Threw | NullReply | OkReply | Bulk string | Count nat

fun exec :: "cmd \<Rightarrow> kvstore \<Rightarrow> reply \<times> kvstore" where
  "exec (SET_NX_EX k v ttl) s =
     (if ttl \<le> 0 then (Threw, s)
      else if holder s k \<noteq> None then (NullReply, s)
      else (OkReply, s\<lparr>kv := (kv s)(k \<mapsto> (v, clock s + nat ttl))\<rparr>))"
| "exec (GET k) s = ((case holder s k of None \<Rightarrow> NullReply | Some v \<Rightarrow> Bulk v), s)"
| "exec (EXPIRE k ttl) s =
     (case holder s k of
        None \<Rightarrow> (Count 0, s)
      | Some v \<Rightarrow>
          if ttl \<le> 0 then (Count 1, s\<lparr>kv := (kv s)(k := None)\<rparr>)
          else (Count 1, s\<lparr>kv := (kv s)(k \<mapsto> (v, clock s + nat ttl))\<rparr>))"
| "exec (DEL k) s = (Count (if holder s k = None then 0 else 1), s\<lparr>kv := (kv s)(k := None)\<rparr>)"
| "exec QUIT s = (OkReply, s)"

section \<open>The node: closure variables, effects, asynchronous handlers\<close>

text \<open>
  The closure variables of \<open>ClusterLeaderNode\<close>: \<open>redisClient\<close> and \<open>statusInterval\<close>
  are \<open>null\<close> or set (the model keeps whether they are set), \<open>isConnected\<close> is a boolean.
\<close>

record node_state =
  isConnected :: bool
  redisClient :: bool
  statusInterval :: bool

record settings =
  lockKey :: key
  lockTTL :: int
  hostname :: ident

text \<open>
  A message is a JavaScript object: its properties in insertion order. An assignment
  \<open>msg.p = v\<close> replaces the value of an existing property and appends a new one.
\<close>

datatype jsval = JNull | JBool bool | JStr string | JNum int

type_synonym msg = "(string \<times> jsval) list"

fun assign :: "string \<Rightarrow> jsval \<Rightarrow> msg \<Rightarrow> msg" where
  "assign p v [] = [(p, v)]"
| "assign p v ((q, u) # m) = (if q = p then (p, v) # m else (q, u) # assign p v m)"

text \<open>
  What a handler does to the host: \<open>node.status\<close> (fill, shape, text), \<open>node.error\<close>,
  \<open>node.warn\<close>, \<open>node.log\<close>, \<open>node.send([first, second])\<close>, \<open>clearInterval\<close> and the
  \<open>done\<close> callback of the close handler. The \<open>err.message\<close> suffix of a logged error
  is left out.
\<close>

datatype effect =
    Status string string string
  | NodeError string
  | NodeWarn string
  | NodeLog string
  | Send "msg option" "msg option"
  | ClearInterval
  | Done

text \<open>
  An \<open>async\<close> function is a coroutine: it runs to its next \<open>await\<close>, where it is
  suspended until the store replies. \<open>Await c k\<close> issues the command \<open>c\<close> and resumes
  with \<open>k\<close> on the reply; \<open>Read k\<close> reads the closure variables as they are at that
  moment; \<open>Effect e p\<close> performs \<open>e\<close> and goes on with \<open>p\<close>.
\<close>

datatype prog =
    Return
  | Effect effect prog
  | Read "node_state \<Rightarrow> prog"
  | Await cmd "reply \<Rightarrow> prog"

definition to_js :: "reply \<Rightarrow> jsval" where
  "to_js r = (case r of Bulk v \<Rightarrow> JStr v | Count n \<Rightarrow> JNum (int n) | OkReply \<Rightarrow> JStr ''OK''
              | _ \<Rightarrow> JNull)"

text \<open>JavaScript truthiness of a reply of \<open>GET\<close>: \<open>null\<close> and the empty string are falsy.\<close>

definition truthy :: "reply \<Rightarrow> bool" where
  "truthy r = (case r of Bulk v \<Rightarrow> v \<noteq> [] | Count n \<Rightarrow> n \<noteq> 0 | OkReply \<Rightarrow> True | _ \<Rightarrow> False)"

definition reply_text :: "reply \<Rightarrow> string" where
  "reply_text r = (case r of Bulk v \<Rightarrow> v | _ \<Rightarrow> [])"

subsection \<open>checkLeadership, refreshLeadership\<close>

text \<open>Both return a boolean to their caller: the continuation \<open>ret\<close>.\<close>

definition checkLeadership :: "settings \<Rightarrow> (bool \<Rightarrow> prog) \<Rightarrow> prog" where
  "checkLeadership c ret =
     Read (\<lambda>n.
       if \<not> isConnected n \<or> \<not> redisClient n then ret False
       else Await (SET_NX_EX (lockKey c) (hostname c) (lockTTL c)) (\<lambda>result.
         if result = Threw then Effect (NodeError ''Leader check failed'') (ret False)
         else ret (result = OkReply)))"

definition refreshLeadership :: "settings \<Rightarrow> (bool \<Rightarrow> prog) \<Rightarrow> prog" where
  "refreshLeadership c ret =
     Read (\<lambda>n.
       if \<not> isConnected n \<or> \<not> redisClient n then ret False
       else Await (GET (lockKey c)) (\<lambda>currentLeader.
         if currentLeader = Threw then Effect (NodeError ''Leader refresh failed'') (ret False)
         else if currentLeader = Bulk (hostname c) then
           Await (EXPIRE (lockKey c) (lockTTL c)) (\<lambda>r.
             if r = Threw then Effect (NodeError ''Leader refresh failed'') (ret False)
             else ret True)
         else ret False))"

subsection \<open>The input handler\<close>

text \<open>The part of the handler after the two checks: the two branches on \<open>isLeader\<close>.\<close>

definition route :: "settings \<Rightarrow> msg \<Rightarrow> bool \<Rightarrow> prog" where
  "route c m isLeader =
     (if isLeader then
        Effect (Send (Some (assign ''leaderHost'' (JStr (hostname c))
                           (assign ''isLeader'' (JBool True) m))) None)
       (Effect (Status ''green'' ''dot'' (''leader ('' @ take 12 (hostname c) @ '')''))
        Return)
      else
        Await (GET (lockKey c)) (\<lambda>currentLeader.
          if currentLeader = Threw then
            Effect (NodeError ''Leader election failed'')
           (Effect (Status ''red'' ''ring'' ''error'')
            Return)
          else
            Effect (Send None (Some (assign ''followerHost'' (JStr (hostname c))
                                    (assign ''leaderHost'' (to_js currentLeader)
                                    (assign ''isLeader'' (JBool False) m)))))
           (Effect (Status ''yellow'' ''ring''
               (''follower (leader: '' @
                (if truthy currentLeader then take 12 (reply_text currentLeader) else ''unknown'')
                @ '')''))
            Return)))"

definition on_input :: "settings \<Rightarrow> msg \<Rightarrow> prog" where
  "on_input c m =
     Read (\<lambda>n.
       if \<not> isConnected n then
         Effect (NodeWarn ''Not connected to Redis, dropping message'') Return
       else
         checkLeadership c (\<lambda>isLeader.
           if \<not> isLeader then refreshLeadership c (route c m)
           else route c m isLeader))"

subsection \<open>The status monitor\<close>

text \<open>The callback of \<open>setInterval\<close> in \<open>startStatusMonitoring\<close>: one tick, every 2 seconds.\<close>

definition tick_failed :: prog where
  "tick_failed = Effect (NodeError ''Status check failed'')
                (Effect (Status ''red'' ''ring'' ''error'') Return)"

definition status_tick :: "settings \<Rightarrow> prog" where
  "status_tick c =
     Read (\<lambda>n.
       if \<not> isConnected n then Effect (Status ''red'' ''ring'' ''disconnected'') Return
       else
         Await (GET (lockKey c)) (\<lambda>currentLeader.
           if currentLeader = Threw then tick_failed
           else if currentLeader = Bulk (hostname c) then
             Await (EXPIRE (lockKey c) (lockTTL c)) (\<lambda>r.
               if r = Threw then tick_failed
               else Effect (Status ''green'' ''dot'' (''leader ('' @ take 12 (hostname c) @ '')''))
                    Return)
           else if truthy currentLeader then
             Effect (Status ''yellow'' ''ring''
                (''follower (leader: '' @ take 12 (reply_text currentLeader) @ '')'')) Return
           else
             Effect (Status ''grey'' ''ring'' ''no leader'') Return))"

subsection \<open>The close handler\<close>

definition cleanup_failed :: prog where
  "cleanup_failed = Effect (NodeError ''Error during cleanup'') (Effect Done Return)"

definition quit_then_done :: prog where
  "quit_then_done =
     Await QUIT (\<lambda>r. if r = Threw then cleanup_failed else Effect Done Return)"

definition on_close :: "settings \<Rightarrow> prog" where
  "on_close c =
     Read (\<lambda>n.
       (if statusInterval n then Effect ClearInterval else (\<lambda>p. p))
       (if redisClient n \<and> isConnected n then
          Await (GET (lockKey c)) (\<lambda>currentLeader.
            if currentLeader = Threw then cleanup_failed
            else if currentLeader = Bulk (hostname c) then
              Await (DEL (lockKey c)) (\<lambda>r.
                if r = Threw then cleanup_failed
                else Effect (NodeLog ''Released leadership lock'') quit_then_done)
            else quit_then_done)
        else Effect Done Return))"

section \<open>Running one handler against the world\<close>

text \<open>
  The world of one node: the store, the closure variables, whether the interval timer
  is armed, and the history of what the handler did (effects and store commands with
  their replies, in order).
\<close>

datatype event = Did effect | Called cmd reply

record world =
  redis :: kvstore
  node :: node_state
  ticking :: bool
  history :: "event list"

text \<open>
  While a handler is suspended at an \<open>await\<close> the rest of the world goes on: time
  passes, other clients run commands against the store, the client's \<open>error\<close> and
  \<open>connect\<close> events assign \<open>isConnected\<close>. An interference says what happens before the
  awaited command reaches the store, and whether the command is rejected.
\<close>

datatype env_event = Elapse nat | Foreign cmd | ErrorEvent | ConnectEvent

record interference =
  before :: "env_event list"
  throws :: bool

definition quiet :: interference where
  "quiet = \<lparr>before = [], throws = False\<rparr>"

text \<open>The command is rejected; \<open>d\<close> time units pass before the command is served.\<close>

definition rejected :: interference where
  "rejected = \<lparr>before = [], throws = True\<rparr>"

definition after :: "nat \<Rightarrow> interference" where
  "after d = \<lparr>before = [Elapse d], throws = False\<rparr>"

fun occur :: "world \<Rightarrow> env_event \<Rightarrow> world" where
  "occur w (Elapse d) = w\<lparr>redis := (redis w)\<lparr>clock := clock (redis w) + d\<rparr>\<rparr>"
| "occur w (Foreign c) = w\<lparr>redis := snd (exec c (redis w))\<rparr>"
| "occur w ErrorEvent = w\<lparr>node := (node w)\<lparr>isConnected := False\<rparr>\<rparr>"
| "occur w ConnectEvent = w\<lparr>node := (node w)\<lparr>isConnected := True\<rparr>\<rparr>"

definition perform :: "effect \<Rightarrow> world \<Rightarrow> world" where
  "perform e w = (case e of ClearInterval \<Rightarrow> w\<lparr>ticking := False\<rparr> | _ \<Rightarrow> w)
                   \<lparr>history := history w @ [Did e]\<rparr>"

text \<open>
  One command of the handler: the interference first, then the command at the store
  (a rejected command does not reach it), then the entry in the history.
\<close>

definition call :: "cmd \<Rightarrow> interference \<Rightarrow> world \<Rightarrow> reply \<times> world" where
  "call c i w =
     (let w1 = foldl occur w (before i);
          (r, s) = (if throws i then (Threw, redis w1) else exec c (redis w1))
      in (r, w1\<lparr>redis := s, history := history w1 @ [Called c r]\<rparr>))"

text \<open>
  A command on a \<open>null\<close> client is a TypeError inside the handler's \<open>try\<close>: no command is
  issued and the \<open>catch\<close> branch runs. An exhausted list of interferences is quiet.
\<close>

primrec run :: "prog \<Rightarrow> interference list \<Rightarrow> world \<Rightarrow> world" where
  "run Return env w = w"
| "run (Effect e p) env w = run p env (perform e w)"
| "run (Read k) env w = run (k (node w)) env w"
| "run (Await c k) env w =
     (if \<not> redisClient (node w) then run (k Threw) env w
      else run (k (fst (call c (case env of [] \<Rightarrow> quiet | i # _ \<Rightarrow> i) w))) (tl env)
               (snd (call c (case env of [] \<Rightarrow> quiet | i # _ \<Rightarrow> i) w)))"

definition commands :: "event list \<Rightarrow> (cmd \<times> reply) list" where
  "commands evs = concat (map (\<lambda>e. case e of Called c r \<Rightarrow> [(c, r)] | Did _ \<Rightarrow> []) evs)"

definition effects :: "event list \<Rightarrow> effect list" where
  "effects evs = concat (map (\<lambda>e. case e of Did x \<Rightarrow> [x] | Called _ _ \<Rightarrow> []) evs)"

text \<open>What a run added to the history of the world it started from.\<close>

definition since :: "world \<Rightarrow> world \<Rightarrow> event list" where
  "since w w' = drop (length (history w)) (history w')"

text \<open>
  \<open>always p n Q\<close>: every history a handler \<open>p\<close> can add satisfies \<open>Q\<close>, when it
  starts with the closure variables \<open>n\<close>, whatever the store replies and whatever
  the closure variables are when it is resumed (the client, once set, stays set).
\<close>

primrec always :: "prog \<Rightarrow> node_state \<Rightarrow> (event list \<Rightarrow> bool) \<Rightarrow> bool" where
  "always Return n Q = Q []"
| "always (Effect e p) n Q = always p n (\<lambda>evs. Q (Did e # evs))"
| "always (Read k) n Q = always (k n) n Q"
| "always (Await c k) n Q =
     (if \<not> redisClient n then always (k Threw) n Q
      else \<forall>r n'. redisClient n' \<longrightarrow> always (k r) n' (\<lambda>evs. Q (Called c r # evs)))"

subsection \<open>Verdicts\<close>

text \<open>
  The verdict a trigger ends with, read off what the handler sent: the first output
  is the leader path, the second the follower path (with the leader it names, if it
  names one); no output is the unknown verdict.
\<close>

datatype verdict = Leading | Following "ident option" | Unknown

definition named_leader :: "msg \<Rightarrow> ident option" where
  "named_leader m = (case map_of m ''leaderHost'' of Some (JStr v) \<Rightarrow> Some v | _ \<Rightarrow> None)"

fun verdict_of :: "effect list \<Rightarrow> verdict" where
  "verdict_of [] = Unknown"
| "verdict_of (Send (Some m) None # es) = Leading"
| "verdict_of (Send None (Some m) # es) = Following (named_leader m)"
| "verdict_of (e # es) = verdict_of es"

section \<open>Start-up: the settings of the node\<close>

text \<open>
  \<open>parseInt\<close> on the configured value. A number is converted to its decimal string
  first, so an integer parses to itself. A string is read as JavaScript reads it:
  leading (ASCII) white space, an optional sign, an optional \<open>0x\<close> prefix, then the longest
  run of digits; no digit at all is \<open>NaN\<close>, here \<open>None\<close>. The model is the function
  of JavaScript on these inputs: an unset value; an integer number of magnitude below
  \<open>10^21\<close> (from there on the decimal string has an exponent); a string of ASCII
  characters whose digits make a value up to \<open>2^53\<close> (beyond it JavaScript rounds to
  a double). Other configured values (fractions, booleans, \<open>null\<close>) have no
  counterpart in \<open>cfgval\<close>.
\<close>

datatype cfgval = CfgUndefined | CfgNumber int | CfgString string

definition is_space :: "char \<Rightarrow> bool" where
  "is_space ch = (of_char ch \<in> {9, 10, 11, 12, 13, 32 :: nat})"

definition digit_of :: "nat \<Rightarrow> char \<Rightarrow> nat option" where
  "digit_of radix ch =
     (let n = of_char ch :: nat;
          d = (if 48 \<le> n \<and> n \<le> 57 then Some (n - 48)
               else if 97 \<le> n \<and> n \<le> 122 then Some (n - 87)
               else if 65 \<le> n \<and> n \<le> 90 then Some (n - 55)
               else None)
      in case d of None \<Rightarrow> None | Some v \<Rightarrow> if v < radix then Some v else None)"

definition digits_value :: "nat \<Rightarrow> string \<Rightarrow> int option" where
  "digits_value radix s =
     (let ds = takeWhile (\<lambda>ch. digit_of radix ch \<noteq> None) s
      in if ds = [] then None
         else Some (int (foldl (\<lambda>a ch. a * radix + (case digit_of radix ch of
                                                        None \<Rightarrow> 0 | Some v \<Rightarrow> v)) 0 ds)))"

definition unsigned_value :: "string \<Rightarrow> int option" where
  "unsigned_value s =
     (if take 2 s = ''0x'' \<or> take 2 s = ''0X'' then digits_value 16 (drop 2 s)
      else digits_value 10 s)"

definition parseInt :: "cfgval \<Rightarrow> int option" where
  "parseInt v =
     (case v of
        CfgUndefined \<Rightarrow> None
      | CfgNumber n \<Rightarrow> Some n
      | CfgString s \<Rightarrow>
          (case dropWhile is_space s of
             [] \<Rightarrow> None
           | ch # rest \<Rightarrow>
               if ch = CHR ''-'' then map_option uminus (unsigned_value rest)
               else if ch = CHR ''+'' then unsigned_value rest
               else unsigned_value (ch # rest)))"

text \<open>
  The first lines of the constructor: \<open>config.lockKey || 'nodered:leader'\<close>,
  \<open>parseInt(config.lockTTL) || 10\<close> (\<open>NaN\<close> and \<open>0\<close> are falsy) and
  \<open>process.env.HOSTNAME || require('os').hostname()\<close> (an unset variable and the empty
  string are falsy). The constructor has no \<open>throw\<close>: it always goes on to \<open>initRedis\<close>
  with these settings, so the result is never the error.
\<close>

record config =
  cfg_lockKey :: "string option"
  cfg_lockTTL :: cfgval

record host =
  env_HOSTNAME :: "string option"
  os_hostname :: string

datatype startup_error = ConfigurationError

definition or_else :: "string option \<Rightarrow> string \<Rightarrow> string" where
  "or_else a b = (case a of None \<Rightarrow> b | Some s \<Rightarrow> if s = [] then b else s)"

definition ClusterLeaderNode :: "config \<Rightarrow> host \<Rightarrow> startup_error + settings" where
  "ClusterLeaderNode config h =
     Inr \<lparr>lockKey = or_else (cfg_lockKey config) ''nodered:leader'',
          lockTTL = (case parseInt (cfg_lockTTL config) of
                       None \<Rightarrow> 10
                     | Some n \<Rightarrow> if n = 0 then 10 else n),
          hostname = or_else (env_HOSTNAME h) (os_hostname h)\<rparr>"

section \<open>One trigger after another\<close>

text \<open>
  A node handling triggers one after the other, each with its message and the time
  that passes before each of its three commands.
\<close>

fun triggers :: "settings \<Rightarrow> (msg \<times> nat \<times> nat \<times> nat) list \<Rightarrow> world \<Rightarrow> world" where
  "triggers c [] w = w"
| "triggers c ((m, d1, d2, d3) # rest) w =
     triggers c rest (run (on_input c m) [after d1, after d2, after d3] w)"

text \<open>
  Every trigger of the sequence is completed before the lease expires: the first has
  \<open>left\<close> time units, each later one the TTL that the trigger before it renewed.
\<close>

fun timely :: "nat \<Rightarrow> nat \<Rightarrow> (msg \<times> nat \<times> nat \<times> nat) list \<Rightarrow> bool" where
  "timely left ttl [] = True"
| "timely left ttl ((m, d1, d2, d3) # rest) = (d1 + d2 + d3 < left \<and> timely ttl ttl rest)"

text \<open>
  The history of a renewing trigger: the conditional set refused, the holder read
  answered with the node's own identity, the expiry refreshed, the message on the
  leader output, the status.
\<close>

definition renewal :: "settings \<Rightarrow> msg \<Rightarrow> event list" where
  "renewal c m =
     [Called (SET_NX_EX (lockKey c) (hostname c) (lockTTL c)) NullReply,
      Called (GET (lockKey c)) (Bulk (hostname c)),
      Called (EXPIRE (lockKey c) (lockTTL c)) (Count 1),
      Did (Send (Some (assign ''leaderHost'' (JStr (hostname c))
                      (assign ''isLeader'' (JBool True) m))) None),
      Did (Status ''green'' ''dot'' (''leader ('' @ take 12 (hostname c) @ '')''))]"

section \<open>Several replicas against one store\<close>

text \<open>
  Each replica runs its handler as a coroutine; the store executes one command at a
  time. A replica at rest is suspended at an \<open>await\<close> or has returned: \<open>settle\<close> runs
  the synchronous part of a handler up to there.
\<close>

primrec settle :: "prog \<Rightarrow> node_state \<Rightarrow> event list \<times> prog" where
  "settle Return n = ([], Return)"
| "settle (Effect e p) n = (Did e # fst (settle p n), snd (settle p n))"
| "settle (Read k) n = settle (k n) n"
| "settle (Await c k) n = (if \<not> redisClient n then settle (k Threw) n else ([], Await c k))"

record replica =
  code :: prog
  vars :: node_state
  trail :: "event list"

record cluster =
  shared :: kvstore
  replicas :: "ident \<Rightarrow> replica"

definition started :: "prog \<Rightarrow> node_state \<Rightarrow> replica" where
  "started p n = \<lparr>code = snd (settle p n), vars = n, trail = fst (settle p n)\<rparr>"

text \<open>
  A step of the schedule: the store serves the pending command of one replica, which
  then runs on to its next \<open>await\<close> or to its end; or time passes.
\<close>

datatype action = Resume ident | Tick nat

definition resume :: "ident \<Rightarrow> cluster \<Rightarrow> cluster" where
  "resume p C =
     (case code (replicas C p) of
        Await c k \<Rightarrow>
          (let r = fst (exec c (shared C));
               rest = settle (k r) (vars (replicas C p))
           in C\<lparr>shared := snd (exec c (shared C)),
                replicas := (replicas C)(p := (replicas C p)
                   \<lparr>code := snd rest,
                    trail := trail (replicas C p) @ Called c r # fst rest\<rparr>)\<rparr>)
      | _ \<Rightarrow> C)"

fun step :: "cluster \<Rightarrow> action \<Rightarrow> cluster" where
  "step C (Resume p) = resume p C"
| "step C (Tick d) = C\<lparr>shared := (shared C)\<lparr>clock := clock (shared C) + d\<rparr>\<rparr>"

definition interleave :: "action list \<Rightarrow> cluster \<Rightarrow> cluster" where
  "interleave sched C = foldl step C sched"

fun elapsed :: "action list \<Rightarrow> nat" where
  "elapsed [] = 0"
| "elapsed (Tick d # sched) = d + elapsed sched"
| "elapsed (Resume p # sched) = elapsed sched"

definition online :: node_state where
  "online = \<lparr>isConnected = True, redisClient = True, statusInterval = True\<rparr>"

text \<open>
  The contest: every identity of \<open>hs\<close> has a trigger pending on the same lock key with
  the same TTL, each with its own message; no other replica is active.
\<close>

definition contest :: "key \<Rightarrow> int \<Rightarrow> ident list \<Rightarrow> (ident \<Rightarrow> msg) \<Rightarrow> kvstore \<Rightarrow> cluster" where
  "contest k ttl hs msgs s =
     \<lparr>shared = s,
      replicas = (\<lambda>p. if p \<in> set hs
                      then started (on_input \<lparr>lockKey = k, lockTTL = ttl, hostname = p\<rparr> (msgs p)) online
                      else \<lparr>code = Return, vars = online, trail = []\<rparr>)\<rparr>"

definition outcome :: "cluster \<Rightarrow> ident \<Rightarrow> verdict" where
  "outcome C p = verdict_of (effects (trail (replicas C p)))"

section \<open>The phases of a contest\<close>

text \<open>
  The states a replica of the contest goes through, with the history it has then:
  it has won the conditional set and sent on the leader output; its conditional set
  was refused; it has read another holder \<open>w\<close>; it has sent on the follower output
  naming \<open>w\<close>.
\<close>

abbreviation candidate :: "key \<Rightarrow> int \<Rightarrow> ident \<Rightarrow> settings" where
  "candidate k ttl p \<equiv> \<lparr>lockKey = k, lockTTL = ttl, hostname = p\<rparr>"

definition won :: "key \<Rightarrow> int \<Rightarrow> msg \<Rightarrow> ident \<Rightarrow> replica" where
  "won k ttl m p =
     \<lparr>code = Return, vars = online,
      trail = [Called (SET_NX_EX k p ttl) OkReply,
               Did (Send (Some (assign ''leaderHost'' (JStr p) (assign ''isLeader'' (JBool True) m))) None),
               Did (Status ''green'' ''dot'' (''leader ('' @ take 12 p @ '')''))]\<rparr>"

definition refused :: "key \<Rightarrow> int \<Rightarrow> msg \<Rightarrow> ident \<Rightarrow> replica" where
  "refused k ttl m p =
     \<lparr>code = snd (settle (refreshLeadership (candidate k ttl p) (route (candidate k ttl p) m)) online),
      vars = online,
      trail = [Called (SET_NX_EX k p ttl) NullReply]\<rparr>"

definition yielding :: "key \<Rightarrow> int \<Rightarrow> msg \<Rightarrow> ident \<Rightarrow> ident \<Rightarrow> replica" where
  "yielding k ttl m w p =
     \<lparr>code = snd (settle (route (candidate k ttl p) m False) online),
      vars = online,
      trail = [Called (SET_NX_EX k p ttl) NullReply, Called (GET k) (Bulk w)]\<rparr>"

definition lost :: "key \<Rightarrow> int \<Rightarrow> msg \<Rightarrow> ident \<Rightarrow> ident \<Rightarrow> replica" where
  "lost k ttl m w p =
     \<lparr>code = Return, vars = online,
      trail = [Called (SET_NX_EX k p ttl) NullReply, Called (GET k) (Bulk w), Called (GET k) (Bulk w),
               Did (Send None (Some (assign ''followerHost'' (JStr p)
                                    (assign ''leaderHost'' (JStr w)
                                    (assign ''isLeader'' (JBool False) m))))),
               Did (Status ''yellow'' ''ring'' (''follower (leader: '' @
                      (if w \<noteq> [] then take 12 w else ''unknown'') @ '')''))]\<rparr>"

text \<open>How many more times a replica of a contest has to be served before its handler returns.\<close>

definition owed :: "replica \<Rightarrow> nat" where
  "owed r = (if code r = Return then 0 else 3 - length (trail r))"

text \<open>
  The invariant of a contest with \<open>b\<close> time units still to pass: replicas outside the
  contest are idle, and either the key is vacant and every contestant is still at its
  conditional set, or one contestant \<open>w\<close> has won, its lease outlasts \<open>b\<close>, and every
  other contestant is somewhere on the way to following \<open>w\<close>.
\<close>

definition pending :: "key \<Rightarrow> int \<Rightarrow> ident list \<Rightarrow> (ident \<Rightarrow> msg) \<Rightarrow> nat \<Rightarrow> cluster \<Rightarrow> bool" where
  "pending k ttl hs msgs b C \<longleftrightarrow>
     holder (shared C) k = None \<and> b < nat ttl \<and>
     (\<forall>p \<in> set hs. replicas C p = started (on_input (candidate k ttl p) (msgs p)) online)"

definition decided :: "key \<Rightarrow> int \<Rightarrow> ident list \<Rightarrow> (ident \<Rightarrow> msg) \<Rightarrow> nat \<Rightarrow> cluster \<Rightarrow> ident \<Rightarrow> bool" where
  "decided k ttl hs msgs b C w \<longleftrightarrow>
     w \<in> set hs \<and>
     (\<exists>e. kv (shared C) k = Some (w, e) \<and> clock (shared C) + b < e) \<and>
     replicas C w = won k ttl (msgs w) w \<and>
     (\<forall>p \<in> set hs. p \<noteq> w \<longrightarrow>
        replicas C p = started (on_input (candidate k ttl p) (msgs p)) online
      \<or> replicas C p = refused k ttl (msgs p) p
      \<or> replicas C p = yielding k ttl (msgs p) w p
      \<or> replicas C p = lost k ttl (msgs p) w p)"

definition contested :: "key \<Rightarrow> int \<Rightarrow> ident list \<Rightarrow> (ident \<Rightarrow> msg) \<Rightarrow> nat \<Rightarrow> cluster \<Rightarrow> bool" where
  "contested k ttl hs msgs b C \<longleftrightarrow>
     (\<forall>p. p \<notin> set hs \<longrightarrow> code (replicas C p) = Return) \<and>
     (pending k ttl hs msgs b C \<or> (\<exists>w. decided k ttl hs msgs b C w))"

section \<open>Example inputs\<close>

definition cfgA :: settings where
  "cfgA = \<lparr>lockKey = ''job-x'', lockTTL = 10, hostname = ''A''\<rparr>"

definition held_by :: "key \<Rightarrow> ident \<Rightarrow> nat \<Rightarrow> kvstore" where
  "held_by k v e = \<lparr>clock = 0, kv = (\<lambda>_. None)(k \<mapsto> (v, e))\<rparr>"

definition vacant :: kvstore where
  "vacant = \<lparr>clock = 0, kv = (\<lambda>_. None)\<rparr>"

definition boot :: "kvstore \<Rightarrow> world" where
  "boot s = \<lparr>redis = s, node = online, ticking = True, history = []\<rparr>"

definition race :: "action list" where
  "race = [Resume ''B'', Resume ''A'', Tick 3, Resume ''C'', Resume ''A'', Resume ''C'',
           Resume ''A'', Resume ''C'', Resume ''B'', Resume ''B'']"

section \<open>Facts about single steps\<close>

lemma occur_history [simp]: "history (occur w e) = history w"
  by (cases e) simp_all

lemma occur_client [simp]: "redisClient (node (occur w e)) = redisClient (node w)"
  by (cases e) simp_all

lemma occur_interval [simp]: "statusInterval (node (occur w e)) = statusInterval (node w)"
  by (cases e) simp_all

lemma occur_ticking [simp]: "ticking (occur w e) = ticking w"
  by (cases e) simp_all

lemma occurs_history [simp]: "history (foldl occur w es) = history w"
  by (induction es arbitrary: w) simp_all

lemma occurs_client [simp]: "redisClient (node (foldl occur w es)) = redisClient (node w)"
  by (induction es arbitrary: w) simp_all

lemma occurs_interval [simp]: "statusInterval (node (foldl occur w es)) = statusInterval (node w)"
  by (induction es arbitrary: w) simp_all

lemma occurs_ticking [simp]: "ticking (foldl occur w es) = ticking w"
  by (induction es arbitrary: w) simp_all

lemma call_history [simp]:
  "history (snd (call c i w)) = history w @ [Called c (fst (call c i w))]"
  by (simp add: call_def Let_def split: prod.splits)

lemma call_client [simp]: "redisClient (node (snd (call c i w))) = redisClient (node w)"
  by (simp add: call_def Let_def split: prod.splits)

lemma call_ticking [simp]: "ticking (snd (call c i w)) = ticking w"
  by (simp add: call_def Let_def split: prod.splits)

lemma perform_history [simp]: "history (perform e w) = history w @ [Did e]"
  by (simp add: perform_def split: effect.splits)

lemma perform_node [simp]: "node (perform e w) = node w"
  by (simp add: perform_def split: effect.splits)

lemma perform_redis [simp]: "redis (perform e w) = redis w"
  by (simp add: perform_def split: effect.splits)

lemma perform_ticking [simp]: "ticking (perform e w) = (e \<noteq> ClearInterval \<and> ticking w)"
  by (simp add: perform_def split: effect.splits)

lemma commands_simps [simp]:
  "commands [] = []"
  "commands (Did e # evs) = commands evs"
  "commands (Called c r # evs) = (c, r) # commands evs"
  "commands (xs @ ys) = commands xs @ commands ys"
  by (simp_all add: commands_def)

lemma effects_simps [simp]:
  "effects [] = []"
  "effects (Did e # evs) = e # effects evs"
  "effects (Called c r # evs) = effects evs"
  "effects (xs @ ys) = effects xs @ effects ys"
  by (simp_all add: effects_def)

lemma map_of_assign [simp]: "map_of (assign p v m) q = (if q = p then Some v else map_of m q)"
  by (induction m) auto

lemma holder_del [simp]: "holder (s\<lparr>kv := (kv s)(k := None)\<rparr>) k = None"
  by (simp add: holder_def)

lemma holder_refresh [simp]:
  "holder (s\<lparr>kv := (kv s)(k \<mapsto> (v, clock s + nat ttl))\<rparr>) k' =
     (if k' = k then (if 0 < ttl then Some v else None) else holder s k')"
  by (simp add: holder_def split: option.splits)

text \<open>What holds of every possible history holds of the history of a run.\<close>

lemma always_history:
  "always p (node w) Q \<Longrightarrow> \<exists>evs. history (run p env w) = history w @ evs \<and> Q evs"
proof (induction p arbitrary: w env Q)
  case Return
  then show ?case by simp
next
  case (Effect e p)
  from Effect.prems have "always p (node (perform e w)) (\<lambda>evs. Q (Did e # evs))" by simp
  from Effect.IH [OF this, of env] show ?case by auto
next
  case (Read k)
  from Read.prems have "always (k (node w)) (node w) Q" by simp
  from Read.IH [OF _ this, of env] show ?case by simp
next
  case (Await c k)
  show ?case
  proof (cases "redisClient (node w)")
    case False
    with Await.prems have "always (k Threw) (node w) Q" by simp
    from Await.IH [OF _ this, of env] False show ?thesis by simp
  next
    case True
    define i where "i = (case env of [] \<Rightarrow> quiet | i # _ \<Rightarrow> i)"
    define r where "r = fst (call c i w)"
    define w1 where "w1 = snd (call c i w)"
    have "redisClient (node w1)" using True by (simp add: w1_def)
    with Await.prems True have "always (k r) (node w1) (\<lambda>evs. Q (Called c r # evs))" by simp
    from Await.IH [OF _ this, of "tl env"] True show ?thesis
      by (auto simp: i_def r_def w1_def)
  qed
qed

lemma always_run: "always p (node w) Q \<Longrightarrow> Q (since w (run p env w))"
  using always_history [of p w Q env] by (auto simp: since_def)

section \<open>Dropped triggers\<close>

text \<open>
  C8. A trigger that arrives while \<open>isConnected\<close> is false is dropped: the handler logs
  the warning and does nothing else. It sends nothing on either output, issues no
  store command (so it computes no verdict and changes nothing in the store), whatever
  the store holds and whatever the environment would do.
\<close>

theorem C8_dropped_when_disconnected:
  "run (on_input c m) env (w\<lparr>node := (node w)\<lparr>isConnected := False\<rparr>\<rparr>)
     = w\<lparr>node := (node w)\<lparr>isConnected := False\<rparr>,
         history := history w @ [Did (NodeWarn ''Not connected to Redis, dropping message'')]\<rparr>"
  by (simp add: on_input_def perform_def)

theorem C8_witness:
  "history (run (on_input cfgA [(''payload'', JNum 7)]) [rejected]
             ((boot (held_by ''job-x'' ''B'' 10))\<lparr>node := (node (boot (held_by ''job-x'' ''B'' 10)))\<lparr>isConnected := False\<rparr>\<rparr>))
     = [Did (NodeWarn ''Not connected to Redis, dropping message'')]"
  using C8_dropped_when_disconnected [of cfgA "[(''payload'', JNum 7)]" "[rejected]" "boot (held_by ''job-x'' ''B'' 10)"]
  by (simp add: boot_def)

section \<open>The status monitor only renews\<close>

lemma tick_commands:
  "commands (since w (run (status_tick c) env w)) = [] \<or>
   (\<exists>r. r \<noteq> Bulk (hostname c) \<and> commands (since w (run (status_tick c) env w)) = [(GET (lockKey c), r)]) \<or>
   (\<exists>r. commands (since w (run (status_tick c) env w)) =
          [(GET (lockKey c), Bulk (hostname c)), (EXPIRE (lockKey c) (lockTTL c), r)])"
  by (simp add: status_tick_def tick_failed_def since_def)

lemma tick_disconnected:
  "\<not> isConnected (node w) \<Longrightarrow>
   since w (run (status_tick c) env w) = [Did (Status ''red'' ''ring'' ''disconnected'')]"
  by (simp add: status_tick_def since_def)

lemma tick_not_holder:
  "holder (redis w) (lockKey c) \<noteq> Some (hostname c) \<Longrightarrow> redis (run (status_tick c) [] w) = redis w"
  by (simp add: status_tick_def tick_failed_def call_def quiet_def split: option.splits)

lemma tick_rejected: "redis (run (status_tick c) (rejected # env) w) = redis w"
  by (simp add: status_tick_def tick_failed_def call_def rejected_def)

lemma tick_keeps_holder:
  "0 < lockTTL c \<Longrightarrow> holder (redis (run (status_tick c) [] w)) (lockKey c) = holder (redis w) (lockKey c)"
  by (simp add: status_tick_def tick_failed_def call_def quiet_def split: option.splits)

text \<open>
  C7. A tick of the monitor never issues the conditional set. Whatever the world and
  the environment, the commands of a tick are: none; or one \<open>GET\<close> whose reply is not
  this node's identity (another holder, no holder, or a rejected read); or that \<open>GET\<close>
  answered with this node's identity, followed by one \<open>EXPIRE\<close> of the lock key. A
  disconnected node only sets its status. Without interference, a tick of a node that
  is not the holder leaves the store as it was, and so does a tick whose read is
  rejected; with a positive TTL a tick never changes who holds the lease.
\<close>

theorem C7_monitor_only_renews:
  "(let cs = commands (since w (run (status_tick c) env w)) in
      cs = [] \<or> (\<exists>r. r \<noteq> Bulk (hostname c) \<and> cs = [(GET (lockKey c), r)]) \<or>
      (\<exists>r. cs = [(GET (lockKey c), Bulk (hostname c)), (EXPIRE (lockKey c) (lockTTL c), r)]))
   \<and> (\<not> isConnected (node w) \<longrightarrow>
        since w (run (status_tick c) env w) = [Did (Status ''red'' ''ring'' ''disconnected'')])
   \<and> (holder (redis w) (lockKey c) \<noteq> Some (hostname c) \<longrightarrow>
        redis (run (status_tick c) [] w) = redis w)
   \<and> redis (run (status_tick c) (rejected # env) w) = redis w
   \<and> (0 < lockTTL c \<longrightarrow>
        holder (redis (run (status_tick c) [] w)) (lockKey c) = holder (redis w) (lockKey c))"
  unfolding Let_def
  using tick_commands [of w c env] tick_disconnected [of w c env] tick_not_holder [of w c]
    tick_rejected [of c env w] tick_keeps_holder [of c w]
  by blast

theorem C7_witness:
  "holder (redis (boot (held_by ''job-x'' ''B'' 10))) (lockKey cfgA) \<noteq> Some (hostname cfgA)
   \<and> redis (run (status_tick cfgA) [] (boot (held_by ''job-x'' ''B'' 10))) = redis (boot (held_by ''job-x'' ''B'' 10))
   \<and> 0 < lockTTL cfgA
   \<and> holder (redis (run (status_tick cfgA) [] (boot (held_by ''job-x'' ''A'' 10)))) (lockKey cfgA) = Some ''A''
   \<and> \<not> isConnected (node (boot vacant\<lparr>node := online\<lparr>isConnected := False\<rparr>\<rparr>))
   \<and> since (boot vacant\<lparr>node := online\<lparr>isConnected := False\<rparr>\<rparr>)
        (run (status_tick cfgA) [] (boot vacant\<lparr>node := online\<lparr>isConnected := False\<rparr>\<rparr>))
       = [Did (Status ''red'' ''ring'' ''disconnected'')]"
proof -
  have b: "holder (redis (boot (held_by ''job-x'' ''B'' 10))) (lockKey cfgA) \<noteq> Some (hostname cfgA)"
    by (simp add: boot_def held_by_def cfgA_def holder_def)
  have a: "holder (redis (boot (held_by ''job-x'' ''A'' 10))) (lockKey cfgA) = Some ''A''"
    by (simp add: boot_def held_by_def cfgA_def holder_def)
  have t: "0 < lockTTL cfgA" by (simp add: cfgA_def)
  have d: "\<not> isConnected (node (boot vacant\<lparr>node := online\<lparr>isConnected := False\<rparr>\<rparr>))" by simp
  from C7_monitor_only_renews [of "boot (held_by ''job-x'' ''B'' 10)" cfgA "[]"]
    C7_monitor_only_renews [of "boot (held_by ''job-x'' ''A'' 10)" cfgA "[]"]
    C7_monitor_only_renews [of "boot vacant\<lparr>node := online\<lparr>isConnected := False\<rparr>\<rparr>" cfgA "[]"]
    a b t d
  show ?thesis by simp
qed

section \<open>Shutdown\<close>

lemma close_done_last: "last (since w (run (on_close c) env w)) = Did Done"
  by (simp add: on_close_def cleanup_failed_def quit_then_done_def since_def)

lemma close_done_once: "count_list (effects (since w (run (on_close c) env w))) Done = 1"
  by (simp add: on_close_def cleanup_failed_def quit_then_done_def since_def)

lemma close_stops_monitor_first:
  "statusInterval (node w) \<Longrightarrow>
   hd (since w (run (on_close c) env w)) = Did ClearInterval \<and> \<not> ticking (run (on_close c) env w)"
  by (simp add: on_close_def cleanup_failed_def quit_then_done_def since_def)

lemma close_offline:
  "\<not> (redisClient (node w) \<and> isConnected (node w)) \<Longrightarrow>
   commands (since w (run (on_close c) env w)) = []"
  by (simp add: on_close_def cleanup_failed_def quit_then_done_def since_def)

lemma close_commands:
  "redisClient (node w) \<and> isConnected (node w) \<Longrightarrow>
     (\<exists>r q. r \<noteq> Threw \<and> r \<noteq> Bulk (hostname c) \<and>
            commands (since w (run (on_close c) env w)) = [(GET (lockKey c), r), (QUIT, q)])
   \<or> (\<exists>r q. r \<noteq> Threw \<and>
            commands (since w (run (on_close c) env w)) =
              [(GET (lockKey c), Bulk (hostname c)), (DEL (lockKey c), r), (QUIT, q)])
   \<or> (GET (lockKey c), Threw) \<in> set (commands (since w (run (on_close c) env w)))
   \<or> (DEL (lockKey c), Threw) \<in> set (commands (since w (run (on_close c) env w)))"
  by (simp add: on_close_def cleanup_failed_def quit_then_done_def since_def)

text \<open>
  C9, as the code has it. In every run of the close handler, whatever the store, the
  closure variables and the environment do: \<open>done\<close> is called exactly once and is the
  last thing the handler does, also when the release or \<open>QUIT\<close> is rejected; when
  the interval is set, clearing it is the first thing the handler does, before any
  store command, and the timer is stopped afterwards; a node without a client or not
  connected issues no store command at all (no release, no \<open>QUIT\<close>); a connected node
  reads the holder first, deletes the key when the holder is its own identity, and,
  when none of these release commands was rejected, issues \<open>QUIT\<close> after them as its
  last command.
\<close>

theorem C9_shutdown_order_and_completion:
  "last (since w (run (on_close c) env w)) = Did Done
   \<and> count_list (effects (since w (run (on_close c) env w))) Done = 1
   \<and> (statusInterval (node w) \<longrightarrow>
        hd (since w (run (on_close c) env w)) = Did ClearInterval
        \<and> \<not> ticking (run (on_close c) env w))
   \<and> (\<not> (redisClient (node w) \<and> isConnected (node w)) \<longrightarrow>
        commands (since w (run (on_close c) env w)) = [])
   \<and> (redisClient (node w) \<and> isConnected (node w) \<longrightarrow>
        (\<exists>r q. r \<noteq> Threw \<and> r \<noteq> Bulk (hostname c) \<and>
            commands (since w (run (on_close c) env w)) = [(GET (lockKey c), r), (QUIT, q)])
      \<or> (\<exists>r q. r \<noteq> Threw \<and>
            commands (since w (run (on_close c) env w)) =
              [(GET (lockKey c), Bulk (hostname c)), (DEL (lockKey c), r), (QUIT, q)])
      \<or> (GET (lockKey c), Threw) \<in> set (commands (since w (run (on_close c) env w)))
      \<or> (DEL (lockKey c), Threw) \<in> set (commands (since w (run (on_close c) env w))))"
  using close_done_last [of w c env] close_done_once [of w c env]
    close_stops_monitor_first [of w c env] close_offline [of w c env] close_commands [of w c env]
  by blast

text \<open>
  Two shutdown runs that do not close the connection: one whose holder read is
  rejected, one of a node that is not connected.
\<close>

theorem C9_counterexample:
  "history (run (on_close cfgA) [rejected] (boot (held_by ''job-x'' ''A'' 10)))
     = [Did ClearInterval, Called (GET ''job-x'') Threw,
        Did (NodeError ''Error during cleanup''), Did Done]
   \<and> history (run (on_close cfgA) [] ((boot (held_by ''job-x'' ''A'' 10))\<lparr>node := online\<lparr>isConnected := False\<rparr>\<rparr>))
     = [Did ClearInterval, Did Done]"
  by (simp add: on_close_def cleanup_failed_def quit_then_done_def cfgA_def boot_def online_def
      held_by_def rejected_def call_def)

theorem C9_witness:
  "statusInterval (node (boot (held_by ''job-x'' ''A'' 10)))
   \<and> redisClient (node (boot (held_by ''job-x'' ''A'' 10)))
   \<and> isConnected (node (boot (held_by ''job-x'' ''A'' 10)))
   \<and> history (run (on_close cfgA) [] (boot (held_by ''job-x'' ''A'' 10)))
       = [Did ClearInterval, Called (GET ''job-x'') (Bulk ''A''), Called (DEL ''job-x'') (Count 1),
          Did (NodeLog ''Released leadership lock''), Called QUIT OkReply, Did Done]
   \<and> \<not> ticking (run (on_close cfgA) [] (boot (held_by ''job-x'' ''A'' 10)))
   \<and> \<not> (redisClient (node ((boot vacant)\<lparr>node := online\<lparr>isConnected := False\<rparr>\<rparr>))
          \<and> isConnected (node ((boot vacant)\<lparr>node := online\<lparr>isConnected := False\<rparr>\<rparr>)))
   \<and> commands (since ((boot vacant)\<lparr>node := online\<lparr>isConnected := False\<rparr>\<rparr>)
         (run (on_close cfgA) [rejected] ((boot vacant)\<lparr>node := online\<lparr>isConnected := False\<rparr>\<rparr>))) = []"
proof -
  have h: "history (run (on_close cfgA) [] (boot (held_by ''job-x'' ''A'' 10)))
       = [Did ClearInterval, Called (GET ''job-x'') (Bulk ''A''), Called (DEL ''job-x'') (Count 1),
          Did (NodeLog ''Released leadership lock''), Called QUIT OkReply, Did Done]"
    by (simp add: on_close_def cleanup_failed_def quit_then_done_def cfgA_def boot_def online_def
      held_by_def call_def quiet_def holder_def)
  have n: "node (boot (held_by ''job-x'' ''A'' 10)) = online" by (simp add: boot_def)
  have o: "statusInterval online \<and> redisClient online \<and> isConnected online" by (simp add: online_def)
  from C9_shutdown_order_and_completion [of "boot (held_by ''job-x'' ''A'' 10)" cfgA "[]"]
    C9_shutdown_order_and_completion [of "(boot vacant)\<lparr>node := online\<lparr>isConnected := False\<rparr>\<rparr>" cfgA "[rejected]"]
    h n o
  show ?thesis by simp
qed

section \<open>Release\<close>

text \<open>Without interference a handler leaves the closure variables as they are.\<close>

lemma run_quiet_node [simp]: "node (run p [] w) = node w"
  by (induction p arbitrary: w) (simp_all add: call_def quiet_def split: prod.splits)

lemma release_by_holder:
  "redisClient (node w) \<Longrightarrow> isConnected (node w) \<Longrightarrow>
   holder (redis w) (lockKey c) = Some (hostname c) \<Longrightarrow>
   redis (run (on_close c) [] w) = (redis w)\<lparr>kv := (kv (redis w))(lockKey c := None)\<rparr>"
  by (simp add: on_close_def cleanup_failed_def quit_then_done_def call_def quiet_def)

lemma release_by_other:
  "redisClient (node w) \<Longrightarrow> isConnected (node w) \<Longrightarrow>
   holder (redis w) (lockKey c) \<noteq> Some (hostname c) \<Longrightarrow>
   redis (run (on_close c) [] w) = redis w"
  by (simp add: on_close_def cleanup_failed_def quit_then_done_def call_def quiet_def
      split: option.splits)

lemma release_no_error:
  "redisClient (node w) \<Longrightarrow> isConnected (node w) \<Longrightarrow>
   NodeError x \<notin> set (effects (since w (run (on_close c) [] w)))"
  by (simp add: on_close_def cleanup_failed_def quit_then_done_def call_def quiet_def since_def
      split: option.splits)

lemma release_rejected: "redis (run (on_close c) (rejected # env) w) = redis w"
  by (simp add: on_close_def cleanup_failed_def quit_then_done_def call_def rejected_def)

lemma release_twice:
  assumes "redisClient (node w)" "isConnected (node w)"
  shows "redis (run (on_close c) [] (run (on_close c) [] w)) = redis (run (on_close c) [] w)"
proof -
  let ?w = "run (on_close c) [] w"
  have n: "redisClient (node ?w)" "isConnected (node ?w)"
    using assms by simp_all
  have "holder (redis ?w) (lockKey c) \<noteq> Some (hostname c)"
  proof (cases "holder (redis w) (lockKey c) = Some (hostname c)")
    case True
    then show ?thesis using assms by (simp add: release_by_holder)
  next
    case False
    then show ?thesis using assms by (simp add: release_by_other)
  qed
  then show ?thesis using n by (rule release_by_other [rotated 2])
qed

text \<open>
  C5. The release is the first part of the close handler. For every state of the
  store, on a connected node and without interference: when the lease is held by
  this node's identity the key is deleted at once; when another identity holds it,
  or nobody, the store is left exactly as it was; in neither case is an error
  reported; and a second release changes nothing more, also when its read is rejected
  because the first one has closed the client.
\<close>

theorem C5_release:
  "redisClient (node w) \<and> isConnected (node w) \<longrightarrow>
     (holder (redis w) (lockKey c) = Some (hostname c) \<longrightarrow>
        redis (run (on_close c) [] w) = (redis w)\<lparr>kv := (kv (redis w))(lockKey c := None)\<rparr>
        \<and> holder (redis (run (on_close c) [] w)) (lockKey c) = None)
   \<and> (holder (redis w) (lockKey c) \<noteq> Some (hostname c) \<longrightarrow>
        redis (run (on_close c) [] w) = redis w)
   \<and> (\<forall>x. NodeError x \<notin> set (effects (since w (run (on_close c) [] w))))
   \<and> redis (run (on_close c) [] (run (on_close c) [] w)) = redis (run (on_close c) [] w)
   \<and> redis (run (on_close c) (rejected # env) (run (on_close c) [] w))
        = redis (run (on_close c) [] w)"
  using release_by_holder [of w c] release_by_other [of w c] release_no_error [of w _ c]
    release_twice [of w c] release_rejected [of c env "run (on_close c) [] w"]
  by simp

theorem C5_witness:
  "redisClient (node (boot (held_by ''job-x'' ''A'' 10))) \<and> isConnected (node (boot (held_by ''job-x'' ''A'' 10)))
   \<and> holder (held_by ''job-x'' ''A'' 10) ''job-x'' = Some ''A''
   \<and> holder (redis (run (on_close cfgA) [] (boot (held_by ''job-x'' ''A'' 10)))) ''job-x'' = None
   \<and> holder (held_by ''job-x'' ''B'' 10) ''job-x'' = Some ''B''
   \<and> redis (run (on_close cfgA) [] (boot (held_by ''job-x'' ''B'' 10))) = held_by ''job-x'' ''B'' 10
   \<and> holder vacant ''job-x'' = None
   \<and> redis (run (on_close cfgA) [] (boot vacant)) = vacant"
proof -
  have o: "redisClient online \<and> isConnected online" by (simp add: online_def)
  have a: "holder (held_by ''job-x'' ''A'' 10) ''job-x'' = Some ''A''"
    and b: "holder (held_by ''job-x'' ''B'' 10) ''job-x'' = Some ''B''"
    and v: "holder vacant ''job-x'' = None"
    by (simp_all add: held_by_def vacant_def holder_def)
  from C5_release [of "boot (held_by ''job-x'' ''A'' 10)" cfgA]
    C5_release [of "boot (held_by ''job-x'' ''B'' 10)" cfgA]
    C5_release [of "boot vacant" cfgA] o a b v
  show ?thesis by (simp add: boot_def cfgA_def)
qed

section \<open>The verdict of a trigger\<close>








section \<open>The two output paths\<close>

lemma input_one_output:
  "isConnected (node w) \<Longrightarrow> redisClient (node w) \<Longrightarrow>
   (\<forall>x \<in> set (commands (since w (run (on_input c m) env w))). snd x \<noteq> Threw) \<longrightarrow>
     (\<exists>m'. effects (since w (run (on_input c m) env w)) =
             [Send (Some m') None,
              Status ''green'' ''dot'' (''leader ('' @ take 12 (hostname c) @ '')'')]
        \<and> map_of m' ''isLeader'' = Some (JBool True)
        \<and> map_of m' ''leaderHost'' = Some (JStr (hostname c))
        \<and> (\<forall>p. p \<noteq> ''isLeader'' \<and> p \<noteq> ''leaderHost'' \<longrightarrow> map_of m' p = map_of m p))
   \<or> (\<exists>r m'. last (commands (since w (run (on_input c m) env w))) = (GET (lockKey c), r)
        \<and> effects (since w (run (on_input c m) env w)) =
             [Send None (Some m'),
              Status ''yellow'' ''ring'' (''follower (leader: '' @
                 (if truthy r then take 12 (reply_text r) else ''unknown'') @ '')'')]
        \<and> map_of m' ''isLeader'' = Some (JBool False)
        \<and> map_of m' ''leaderHost'' = Some (to_js r)
        \<and> map_of m' ''followerHost'' = Some (JStr (hostname c))
        \<and> (\<forall>p. p \<noteq> ''isLeader'' \<and> p \<noteq> ''leaderHost'' \<and> p \<noteq> ''followerHost''
               \<longrightarrow> map_of m' p = map_of m p))"
  by (rule always_run) (simp add: on_input_def checkLeadership_def refreshLeadership_def route_def)

lemma input_vacant:
  "isConnected (node w) \<Longrightarrow> redisClient (node w) \<Longrightarrow> 0 < lockTTL c \<Longrightarrow>
   holder (redis w) (lockKey c) = None \<Longrightarrow>
   since w (run (on_input c m) [] w) =
     [Called (SET_NX_EX (lockKey c) (hostname c) (lockTTL c)) OkReply,
      Did (Send (Some (assign ''leaderHost'' (JStr (hostname c)) (assign ''isLeader'' (JBool True) m))) None),
      Did (Status ''green'' ''dot'' (''leader ('' @ take 12 (hostname c) @ '')''))]"
  by (simp add: on_input_def checkLeadership_def refreshLeadership_def route_def since_def
      call_def quiet_def)

lemma input_holder:
  "isConnected (node w) \<Longrightarrow> redisClient (node w) \<Longrightarrow> 0 < lockTTL c \<Longrightarrow>
   holder (redis w) (lockKey c) = Some (hostname c) \<Longrightarrow>
   since w (run (on_input c m) [] w) =
     [Called (SET_NX_EX (lockKey c) (hostname c) (lockTTL c)) NullReply,
      Called (GET (lockKey c)) (Bulk (hostname c)),
      Called (EXPIRE (lockKey c) (lockTTL c)) (Count 1),
      Did (Send (Some (assign ''leaderHost'' (JStr (hostname c)) (assign ''isLeader'' (JBool True) m))) None),
      Did (Status ''green'' ''dot'' (''leader ('' @ take 12 (hostname c) @ '')''))]"
  by (simp add: on_input_def checkLeadership_def refreshLeadership_def route_def since_def
      call_def quiet_def)

lemma input_other:
  "isConnected (node w) \<Longrightarrow> redisClient (node w) \<Longrightarrow> 0 < lockTTL c \<Longrightarrow>
   holder (redis w) (lockKey c) = Some v \<Longrightarrow> v \<noteq> hostname c \<Longrightarrow>
   since w (run (on_input c m) [] w) =
     [Called (SET_NX_EX (lockKey c) (hostname c) (lockTTL c)) NullReply,
      Called (GET (lockKey c)) (Bulk v),
      Called (GET (lockKey c)) (Bulk v),
      Did (Send None (Some (assign ''followerHost'' (JStr (hostname c))
                           (assign ''leaderHost'' (JStr v)
                           (assign ''isLeader'' (JBool False) m))))),
      Did (Status ''yellow'' ''ring'' (''follower (leader: '' @
             (if v \<noteq> [] then take 12 v else ''unknown'') @ '')''))]"
  by (simp add: on_input_def checkLeadership_def refreshLeadership_def route_def since_def
      call_def quiet_def to_js_def truthy_def reply_text_def)

text \<open>
  C4, as the code has it. A trigger handled by a connected node none of whose store
  commands is rejected sends the message exactly once, on exactly one output, all
  other properties of the message unchanged: either on the first output only, with
  \<open>isLeader\<close> true and \<open>leaderHost\<close> the node's own identity, or on the second output
  only, with \<open>isLeader\<close> false, \<open>followerHost\<close> the node's own identity and \<open>leaderHost\<close>
  whatever the last \<open>GET\<close> returned: \<open>null\<close> when the key is vacant by then. When
  nothing interferes between its commands and the TTL is positive, the trigger leads
  when the key is vacant or held by the node itself, and follows when another identity
  holds the key: then \<open>leaderHost\<close> is that other identity.
\<close>

theorem C4_exactly_one_output:
  "isConnected (node w) \<and> redisClient (node w) \<longrightarrow>
     ((\<forall>x \<in> set (commands (since w (run (on_input c m) env w))). snd x \<noteq> Threw) \<longrightarrow>
        (\<exists>m'. effects (since w (run (on_input c m) env w)) =
                [Send (Some m') None,
                 Status ''green'' ''dot'' (''leader ('' @ take 12 (hostname c) @ '')'')]
           \<and> map_of m' ''isLeader'' = Some (JBool True)
           \<and> map_of m' ''leaderHost'' = Some (JStr (hostname c))
           \<and> (\<forall>p. p \<noteq> ''isLeader'' \<and> p \<noteq> ''leaderHost'' \<longrightarrow> map_of m' p = map_of m p))
      \<or> (\<exists>r m'. last (commands (since w (run (on_input c m) env w))) = (GET (lockKey c), r)
           \<and> effects (since w (run (on_input c m) env w)) =
                [Send None (Some m'),
                 Status ''yellow'' ''ring'' (''follower (leader: '' @
                    (if truthy r then take 12 (reply_text r) else ''unknown'') @ '')'')]
           \<and> map_of m' ''isLeader'' = Some (JBool False)
           \<and> map_of m' ''leaderHost'' = Some (to_js r)
           \<and> map_of m' ''followerHost'' = Some (JStr (hostname c))
           \<and> (\<forall>p. p \<noteq> ''isLeader'' \<and> p \<noteq> ''leaderHost'' \<and> p \<noteq> ''followerHost''
                  \<longrightarrow> map_of m' p = map_of m p)))
   \<and> (0 < lockTTL c \<longrightarrow>
        (holder (redis w) (lockKey c) = None \<or> holder (redis w) (lockKey c) = Some (hostname c) \<longrightarrow>
           (\<exists>m'. effects (since w (run (on_input c m) [] w)) =
                   [Send (Some m') None,
                    Status ''green'' ''dot'' (''leader ('' @ take 12 (hostname c) @ '')'')]
              \<and> map_of m' ''isLeader'' = Some (JBool True)
              \<and> map_of m' ''leaderHost'' = Some (JStr (hostname c))))
      \<and> (\<forall>v. holder (redis w) (lockKey c) = Some v \<and> v \<noteq> hostname c \<longrightarrow>
           (\<exists>m'. effects (since w (run (on_input c m) [] w)) =
                   [Send None (Some m'),
                    Status ''yellow'' ''ring'' (''follower (leader: '' @
                       (if v \<noteq> [] then take 12 v else ''unknown'') @ '')'')]
              \<and> map_of m' ''isLeader'' = Some (JBool False)
              \<and> map_of m' ''leaderHost'' = Some (JStr v)
              \<and> map_of m' ''followerHost'' = Some (JStr (hostname c)))))"
proof (intro impI conjI allI)
  assume a: "isConnected (node w) \<and> redisClient (node w)"
  assume "\<forall>x \<in> set (commands (since w (run (on_input c m) env w))). snd x \<noteq> Threw"
  with a input_one_output [of w c m env]
  show "(\<exists>m'. effects (since w (run (on_input c m) env w)) =
                [Send (Some m') None,
                 Status ''green'' ''dot'' (''leader ('' @ take 12 (hostname c) @ '')'')]
           \<and> map_of m' ''isLeader'' = Some (JBool True)
           \<and> map_of m' ''leaderHost'' = Some (JStr (hostname c))
           \<and> (\<forall>p. p \<noteq> ''isLeader'' \<and> p \<noteq> ''leaderHost'' \<longrightarrow> map_of m' p = map_of m p))
      \<or> (\<exists>r m'. last (commands (since w (run (on_input c m) env w))) = (GET (lockKey c), r)
           \<and> effects (since w (run (on_input c m) env w)) =
                [Send None (Some m'),
                 Status ''yellow'' ''ring'' (''follower (leader: '' @
                    (if truthy r then take 12 (reply_text r) else ''unknown'') @ '')'')]
           \<and> map_of m' ''isLeader'' = Some (JBool False)
           \<and> map_of m' ''leaderHost'' = Some (to_js r)
           \<and> map_of m' ''followerHost'' = Some (JStr (hostname c))
           \<and> (\<forall>p. p \<noteq> ''isLeader'' \<and> p \<noteq> ''leaderHost'' \<and> p \<noteq> ''followerHost''
                  \<longrightarrow> map_of m' p = map_of m p))"
    by blast
next
  assume a: "isConnected (node w) \<and> redisClient (node w)" and t: "0 < lockTTL c"
  assume "holder (redis w) (lockKey c) = None \<or> holder (redis w) (lockKey c) = Some (hostname c)"
  then show "\<exists>m'. effects (since w (run (on_input c m) [] w)) =
                   [Send (Some m') None,
                    Status ''green'' ''dot'' (''leader ('' @ take 12 (hostname c) @ '')'')]
              \<and> map_of m' ''isLeader'' = Some (JBool True)
              \<and> map_of m' ''leaderHost'' = Some (JStr (hostname c))"
    using a t by (auto simp: input_vacant input_holder)
next
  fix v
  assume a: "isConnected (node w) \<and> redisClient (node w)" and t: "0 < lockTTL c"
  assume "holder (redis w) (lockKey c) = Some v \<and> v \<noteq> hostname c"
  then show "\<exists>m'. effects (since w (run (on_input c m) [] w)) =
                   [Send None (Some m'),
                    Status ''yellow'' ''ring'' (''follower (leader: '' @
                       (if v \<noteq> [] then take 12 v else ''unknown'') @ '')'')]
              \<and> map_of m' ''isLeader'' = Some (JBool False)
              \<and> map_of m' ''leaderHost'' = Some (JStr v)
              \<and> map_of m' ''followerHost'' = Some (JStr (hostname c))"
    using a t by (simp add: input_other)
qed

theorem C4_witness:
  "isConnected (node (boot vacant)) \<and> redisClient (node (boot vacant)) \<and> 0 < lockTTL cfgA
   \<and> holder (redis (boot vacant)) (lockKey cfgA) = None
   \<and> effects (history (run (on_input cfgA [(''payload'', JNum 7)]) [] (boot vacant)))
       = [Send (Some [(''payload'', JNum 7), (''isLeader'', JBool True), (''leaderHost'', JStr ''A'')]) None,
          Status ''green'' ''dot'' ''leader (A)'']
   \<and> holder (redis (boot (held_by ''job-x'' ''B'' 10))) (lockKey cfgA) = Some ''B''
   \<and> ''B'' \<noteq> hostname cfgA
   \<and> effects (history (run (on_input cfgA [(''payload'', JNum 7)]) [] (boot (held_by ''job-x'' ''B'' 10))))
       = [Send None (Some [(''payload'', JNum 7), (''isLeader'', JBool False),
                           (''leaderHost'', JStr ''B''), (''followerHost'', JStr ''A'')]),
          Status ''yellow'' ''ring'' ''follower (leader: B)'']"
proof -
  have n: "node (boot s) = online" "redis (boot s) = s" "since (boot s) w' = history w'" for s w'
    by (simp_all add: boot_def since_def)
  have o: "isConnected online \<and> redisClient online" by (simp add: online_def)
  have c: "0 < lockTTL cfgA" "lockKey cfgA = ''job-x''" "hostname cfgA = ''A''"
    by (simp_all add: cfgA_def)
  have h: "holder vacant ''job-x'' = None" "holder (held_by ''job-x'' ''B'' 10) ''job-x'' = Some ''B''"
    by (simp_all add: vacant_def held_by_def holder_def)
  have v: "since (boot vacant) (run (on_input cfgA [(''payload'', JNum 7)]) [] (boot vacant)) =
     [Called (SET_NX_EX ''job-x'' ''A'' 10) OkReply,
      Did (Send (Some [(''payload'', JNum 7), (''isLeader'', JBool True), (''leaderHost'', JStr ''A'')]) None),
      Did (Status ''green'' ''dot'' ''leader (A)'')]"
    using input_vacant [of "boot vacant" cfgA "[(''payload'', JNum 7)]"]
    by (simp add: n o h cfgA_def)
  have b: "since (boot (held_by ''job-x'' ''B'' 10))
       (run (on_input cfgA [(''payload'', JNum 7)]) [] (boot (held_by ''job-x'' ''B'' 10))) =
     [Called (SET_NX_EX ''job-x'' ''A'' 10) NullReply,
      Called (GET ''job-x'') (Bulk ''B''), Called (GET ''job-x'') (Bulk ''B''),
      Did (Send None (Some [(''payload'', JNum 7), (''isLeader'', JBool False),
                           (''leaderHost'', JStr ''B''), (''followerHost'', JStr ''A'')])),
      Did (Status ''yellow'' ''ring'' ''follower (leader: B)'')]"
    using input_other [of "boot (held_by ''job-x'' ''B'' 10)" cfgA "''B''" "[(''payload'', JNum 7)]"]
    by (simp add: n o h cfgA_def)
  from C4_exactly_one_output [of "boot vacant" cfgA "[(''payload'', JNum 7)]" "[]"]
    C4_exactly_one_output [of "boot (held_by ''job-x'' ''B'' 10)" cfgA "[(''payload'', JNum 7)]" "[]"]
    o c h v b
  show ?thesis by (simp add: n)
qed

text \<open>
  A follower output that does not name another holder, on a connected node with no
  command rejected. In the first run the holder \<open>B\<close> deletes the key between this
  node's refused conditional set and its reads: \<open>leaderHost\<close> is \<open>null\<close>. In the second
  the key is deleted before the first read and taken under this node's own identity
  \<open>A\<close> (by another trigger of the node) before the second: \<open>leaderHost\<close> is \<open>A\<close> itself.
\<close>

theorem C4_counterexample:
  "history (run (on_input cfgA [])
             [quiet, \<lparr>before = [Foreign (DEL ''job-x'')], throws = False\<rparr>]
             (boot (held_by ''job-x'' ''B'' 10)))
     = [Called (SET_NX_EX ''job-x'' ''A'' 10) NullReply,
        Called (GET ''job-x'') NullReply, Called (GET ''job-x'') NullReply,
        Did (Send None (Some [(''isLeader'', JBool False), (''leaderHost'', JNull),
                             (''followerHost'', JStr ''A'')])),
        Did (Status ''yellow'' ''ring'' ''follower (leader: unknown)'')]
   \<and> history (run (on_input cfgA [])
             [quiet, \<lparr>before = [Foreign (DEL ''job-x'')], throws = False\<rparr>,
              \<lparr>before = [Foreign (SET_NX_EX ''job-x'' ''A'' 10)], throws = False\<rparr>]
             (boot (held_by ''job-x'' ''B'' 10)))
     = [Called (SET_NX_EX ''job-x'' ''A'' 10) NullReply,
        Called (GET ''job-x'') NullReply, Called (GET ''job-x'') (Bulk ''A''),
        Did (Send None (Some [(''isLeader'', JBool False), (''leaderHost'', JStr ''A''),
                             (''followerHost'', JStr ''A'')])),
        Did (Status ''yellow'' ''ring'' ''follower (leader: A)'')]"
  by (simp add: on_input_def checkLeadership_def refreshLeadership_def route_def cfgA_def
      boot_def online_def quiet_def held_by_def holder_def call_def
      to_js_def truthy_def reply_text_def)


section \<open>A follower output that names no leader\<close>

lemma expired_mid_trigger:
  "isConnected (node w) \<Longrightarrow> redisClient (node w) \<Longrightarrow> 0 < lockTTL c \<Longrightarrow>
   kv (redis w) (lockKey c) = Some (v, e) \<Longrightarrow> clock (redis w) < e \<Longrightarrow> e \<le> clock (redis w) + d \<Longrightarrow>
   since w (run (on_input c m) [quiet, after d] w) =
     [Called (SET_NX_EX (lockKey c) (hostname c) (lockTTL c)) NullReply,
      Called (GET (lockKey c)) NullReply, Called (GET (lockKey c)) NullReply,
      Did (Send None (Some (assign ''followerHost'' (JStr (hostname c))
                           (assign ''leaderHost'' JNull
                           (assign ''isLeader'' (JBool False) m))))),
      Did (Status ''yellow'' ''ring'' ''follower (leader: unknown)'')]"
  by (simp add: on_input_def checkLeadership_def refreshLeadership_def route_def since_def
      call_def quiet_def after_def holder_def to_js_def truthy_def reply_text_def)

lemma deleted_mid_trigger:
  "isConnected (node w) \<Longrightarrow> redisClient (node w) \<Longrightarrow> 0 < lockTTL c \<Longrightarrow>
   holder (redis w) (lockKey c) = Some v \<Longrightarrow>
   since w (run (on_input c m)
              [quiet, \<lparr>before = [Foreign (DEL (lockKey c))], throws = False\<rparr>] w) =
     [Called (SET_NX_EX (lockKey c) (hostname c) (lockTTL c)) NullReply,
      Called (GET (lockKey c)) NullReply, Called (GET (lockKey c)) NullReply,
      Did (Send None (Some (assign ''followerHost'' (JStr (hostname c))
                           (assign ''leaderHost'' JNull
                           (assign ''isLeader'' (JBool False) m))))),
      Did (Status ''yellow'' ''ring'' ''follower (leader: unknown)'')]"
  by (simp add: on_input_def checkLeadership_def refreshLeadership_def route_def since_def
      call_def quiet_def to_js_def truthy_def reply_text_def)

text \<open>
  C10. There is an execution in which a trigger is sent on the follower output with
  \<open>isLeader\<close> false and a \<open>null\<close> \<open>leaderHost\<close>. It happens whenever the key is held when
  the conditional set is refused and the lease has expired, or has been deleted by
  another client, when the holder is read: on a connected node with a positive TTL
  and no command rejected, the commands are then the refused conditional set and two
  reads answered \<open>null\<close>, and the message goes to the second output only, its
  \<open>isLeader\<close> property false, its \<open>leaderHost\<close> property \<open>null\<close>, its \<open>followerHost\<close>
  property the node's own identity, its other properties unchanged.
\<close>

theorem C10_follower_output_without_leader:
  "(\<exists>c m env w m'.
       isConnected (node w) \<and> redisClient (node w) \<and> 0 < lockTTL c
     \<and> holder (redis w) (lockKey c) \<noteq> None
     \<and> commands (since w (run (on_input c m) env w)) =
         [(SET_NX_EX (lockKey c) (hostname c) (lockTTL c), NullReply),
          (GET (lockKey c), NullReply), (GET (lockKey c), NullReply)]
     \<and> effects (since w (run (on_input c m) env w)) =
         [Send None (Some m'), Status ''yellow'' ''ring'' ''follower (leader: unknown)'']
     \<and> map_of m' ''isLeader'' = Some (JBool False)
     \<and> map_of m' ''leaderHost'' = Some JNull)
   \<and> (isConnected (node w) \<and> redisClient (node w) \<and> 0 < lockTTL c
      \<and> kv (redis w) (lockKey c) = Some (v, e) \<and> clock (redis w) < e \<and> e \<le> clock (redis w) + d \<longrightarrow>
        commands (since w (run (on_input c m) [quiet, after d] w)) =
          [(SET_NX_EX (lockKey c) (hostname c) (lockTTL c), NullReply),
           (GET (lockKey c), NullReply), (GET (lockKey c), NullReply)]
      \<and> (\<exists>m'. effects (since w (run (on_input c m) [quiet, after d] w)) =
                 [Send None (Some m'), Status ''yellow'' ''ring'' ''follower (leader: unknown)'']
            \<and> map_of m' ''isLeader'' = Some (JBool False)
            \<and> map_of m' ''leaderHost'' = Some JNull
            \<and> map_of m' ''followerHost'' = Some (JStr (hostname c))
            \<and> (\<forall>p. p \<noteq> ''isLeader'' \<and> p \<noteq> ''leaderHost'' \<and> p \<noteq> ''followerHost''
                   \<longrightarrow> map_of m' p = map_of m p)))
   \<and> (isConnected (node w) \<and> redisClient (node w) \<and> 0 < lockTTL c
      \<and> holder (redis w) (lockKey c) = Some v \<longrightarrow>
        commands (since w (run (on_input c m)
                   [quiet, \<lparr>before = [Foreign (DEL (lockKey c))], throws = False\<rparr>] w)) =
          [(SET_NX_EX (lockKey c) (hostname c) (lockTTL c), NullReply),
           (GET (lockKey c), NullReply), (GET (lockKey c), NullReply)]
      \<and> (\<exists>m'. effects (since w (run (on_input c m)
                   [quiet, \<lparr>before = [Foreign (DEL (lockKey c))], throws = False\<rparr>] w)) =
                 [Send None (Some m'), Status ''yellow'' ''ring'' ''follower (leader: unknown)'']
            \<and> map_of m' ''isLeader'' = Some (JBool False)
            \<and> map_of m' ''leaderHost'' = Some JNull
            \<and> map_of m' ''followerHost'' = Some (JStr (hostname c))
            \<and> (\<forall>p. p \<noteq> ''isLeader'' \<and> p \<noteq> ''leaderHost'' \<and> p \<noteq> ''followerHost''
                   \<longrightarrow> map_of m' p = map_of m p)))"
proof (intro conjI impI)
  have n: "node (boot s) = online" "redis (boot s) = s" for s
    by (simp_all add: boot_def)
  have o: "isConnected online" "redisClient online" by (simp_all add: online_def)
  have k: "lockTTL cfgA = 10" "lockKey cfgA = ''job-x''" "hostname cfgA = ''A''"
    by (simp_all add: cfgA_def)
  have h: "holder (held_by ''job-x'' ''B'' 10) ''job-x'' = Some ''B''"
    by (simp add: held_by_def holder_def)
  have ex: "since (boot (held_by ''job-x'' ''B'' 10))
         (run (on_input cfgA [(''payload'', JNum 7)])
              [quiet, \<lparr>before = [Foreign (DEL (lockKey cfgA))], throws = False\<rparr>]
              (boot (held_by ''job-x'' ''B'' 10))) =
     [Called (SET_NX_EX (lockKey cfgA) (hostname cfgA) (lockTTL cfgA)) NullReply,
      Called (GET (lockKey cfgA)) NullReply, Called (GET (lockKey cfgA)) NullReply,
      Did (Send None (Some (assign ''followerHost'' (JStr (hostname cfgA))
                           (assign ''leaderHost'' JNull
                           (assign ''isLeader'' (JBool False) [(''payload'', JNum 7)]))))),
      Did (Status ''yellow'' ''ring'' ''follower (leader: unknown)'')]"
    by (rule deleted_mid_trigger [where v = "''B''"]) (simp_all add: n o k h)
  show "\<exists>c m env w m'.
       isConnected (node w) \<and> redisClient (node w) \<and> 0 < lockTTL c
     \<and> holder (redis w) (lockKey c) \<noteq> None
     \<and> commands (since w (run (on_input c m) env w)) =
         [(SET_NX_EX (lockKey c) (hostname c) (lockTTL c), NullReply),
          (GET (lockKey c), NullReply), (GET (lockKey c), NullReply)]
     \<and> effects (since w (run (on_input c m) env w)) =
         [Send None (Some m'), Status ''yellow'' ''ring'' ''follower (leader: unknown)'']
     \<and> map_of m' ''isLeader'' = Some (JBool False)
     \<and> map_of m' ''leaderHost'' = Some JNull"
    apply (rule exI [of _ cfgA])
    apply (rule exI [of _ "[(''payload'', JNum 7)]"])
    apply (rule exI [of _ "[quiet, \<lparr>before = [Foreign (DEL (lockKey cfgA))], throws = False\<rparr>]"])
    apply (rule exI [of _ "boot (held_by ''job-x'' ''B'' 10)"])
    apply (rule exI [of _ "assign ''followerHost'' (JStr (hostname cfgA))
                           (assign ''leaderHost'' JNull
                           (assign ''isLeader'' (JBool False) [(''payload'', JNum 7)]))"])
    apply (simp add: ex n o)
    apply (simp add: k h)
    done
next
  assume a: "isConnected (node w) \<and> redisClient (node w) \<and> 0 < lockTTL c
      \<and> kv (redis w) (lockKey c) = Some (v, e) \<and> clock (redis w) < e \<and> e \<le> clock (redis w) + d"
  then have r: "since w (run (on_input c m) [quiet, after d] w) =
     [Called (SET_NX_EX (lockKey c) (hostname c) (lockTTL c)) NullReply,
      Called (GET (lockKey c)) NullReply, Called (GET (lockKey c)) NullReply,
      Did (Send None (Some (assign ''followerHost'' (JStr (hostname c))
                           (assign ''leaderHost'' JNull
                           (assign ''isLeader'' (JBool False) m))))),
      Did (Status ''yellow'' ''ring'' ''follower (leader: unknown)'')]"
    by (simp add: expired_mid_trigger)
  show "commands (since w (run (on_input c m) [quiet, after d] w)) =
          [(SET_NX_EX (lockKey c) (hostname c) (lockTTL c), NullReply),
           (GET (lockKey c), NullReply), (GET (lockKey c), NullReply)]"
    by (simp add: r)
  show "\<exists>m'. effects (since w (run (on_input c m) [quiet, after d] w)) =
                 [Send None (Some m'), Status ''yellow'' ''ring'' ''follower (leader: unknown)'']
            \<and> map_of m' ''isLeader'' = Some (JBool False)
            \<and> map_of m' ''leaderHost'' = Some JNull
            \<and> map_of m' ''followerHost'' = Some (JStr (hostname c))
            \<and> (\<forall>p. p \<noteq> ''isLeader'' \<and> p \<noteq> ''leaderHost'' \<and> p \<noteq> ''followerHost''
                   \<longrightarrow> map_of m' p = map_of m p)"
    by (simp add: r)
next
  assume a: "isConnected (node w) \<and> redisClient (node w) \<and> 0 < lockTTL c
      \<and> holder (redis w) (lockKey c) = Some v"
  then have r: "since w (run (on_input c m)
              [quiet, \<lparr>before = [Foreign (DEL (lockKey c))], throws = False\<rparr>] w) =
     [Called (SET_NX_EX (lockKey c) (hostname c) (lockTTL c)) NullReply,
      Called (GET (lockKey c)) NullReply, Called (GET (lockKey c)) NullReply,
      Did (Send None (Some (assign ''followerHost'' (JStr (hostname c))
                           (assign ''leaderHost'' JNull
                           (assign ''isLeader'' (JBool False) m))))),
      Did (Status ''yellow'' ''ring'' ''follower (leader: unknown)'')]"
    by (simp add: deleted_mid_trigger)
  show "commands (since w (run (on_input c m)
                   [quiet, \<lparr>before = [Foreign (DEL (lockKey c))], throws = False\<rparr>] w)) =
          [(SET_NX_EX (lockKey c) (hostname c) (lockTTL c), NullReply),
           (GET (lockKey c), NullReply), (GET (lockKey c), NullReply)]"
    by (simp add: r)
  show "\<exists>m'. effects (since w (run (on_input c m)
                   [quiet, \<lparr>before = [Foreign (DEL (lockKey c))], throws = False\<rparr>] w)) =
                 [Send None (Some m'), Status ''yellow'' ''ring'' ''follower (leader: unknown)'']
            \<and> map_of m' ''isLeader'' = Some (JBool False)
            \<and> map_of m' ''leaderHost'' = Some JNull
            \<and> map_of m' ''followerHost'' = Some (JStr (hostname c))
            \<and> (\<forall>p. p \<noteq> ''isLeader'' \<and> p \<noteq> ''leaderHost'' \<and> p \<noteq> ''followerHost''
                   \<longrightarrow> map_of m' p = map_of m p)"
    by (simp add: r)
qed

text \<open>
  The two executions on the example node \<open>A\<close>, \<open>B\<close> holding the key until time 10: ten
  time units pass after the refused conditional set; \<open>B\<close> deletes the key after it.
\<close>

theorem C10_witness:
  "isConnected (node (boot (held_by ''job-x'' ''B'' 10)))
   \<and> redisClient (node (boot (held_by ''job-x'' ''B'' 10)))
   \<and> 0 < lockTTL cfgA
   \<and> kv (redis (boot (held_by ''job-x'' ''B'' 10))) (lockKey cfgA) = Some (''B'', 10)
   \<and> clock (redis (boot (held_by ''job-x'' ''B'' 10))) < 10
   \<and> 10 \<le> clock (redis (boot (held_by ''job-x'' ''B'' 10))) + 10
   \<and> holder (redis (boot (held_by ''job-x'' ''B'' 10))) (lockKey cfgA) = Some ''B''
   \<and> history (run (on_input cfgA [(''payload'', JNum 7)]) [quiet, after 10]
                (boot (held_by ''job-x'' ''B'' 10)))
       = [Called (SET_NX_EX ''job-x'' ''A'' 10) NullReply,
          Called (GET ''job-x'') NullReply, Called (GET ''job-x'') NullReply,
          Did (Send None (Some [(''payload'', JNum 7), (''isLeader'', JBool False),
                               (''leaderHost'', JNull), (''followerHost'', JStr ''A'')])),
          Did (Status ''yellow'' ''ring'' ''follower (leader: unknown)'')]
   \<and> history (run (on_input cfgA [(''payload'', JNum 7)])
                [quiet, \<lparr>before = [Foreign (DEL ''job-x'')], throws = False\<rparr>]
                (boot (held_by ''job-x'' ''B'' 10)))
       = [Called (SET_NX_EX ''job-x'' ''A'' 10) NullReply,
          Called (GET ''job-x'') NullReply, Called (GET ''job-x'') NullReply,
          Did (Send None (Some [(''payload'', JNum 7), (''isLeader'', JBool False),
                               (''leaderHost'', JNull), (''followerHost'', JStr ''A'')])),
          Did (Status ''yellow'' ''ring'' ''follower (leader: unknown)'')]"
proof -
  have p: "isConnected (node (boot (held_by ''job-x'' ''B'' 10)))
   \<and> redisClient (node (boot (held_by ''job-x'' ''B'' 10)))
   \<and> 0 < lockTTL cfgA
   \<and> kv (redis (boot (held_by ''job-x'' ''B'' 10))) (lockKey cfgA) = Some (''B'', 10)
   \<and> clock (redis (boot (held_by ''job-x'' ''B'' 10))) < 10
   \<and> 10 \<le> clock (redis (boot (held_by ''job-x'' ''B'' 10))) + 10
   \<and> holder (redis (boot (held_by ''job-x'' ''B'' 10))) (lockKey cfgA) = Some ''B''"
    by (simp add: boot_def online_def held_by_def holder_def cfgA_def)
  have x: "history (run (on_input cfgA [(''payload'', JNum 7)]) [quiet, after 10]
                (boot (held_by ''job-x'' ''B'' 10)))
       = [Called (SET_NX_EX ''job-x'' ''A'' 10) NullReply,
          Called (GET ''job-x'') NullReply, Called (GET ''job-x'') NullReply,
          Did (Send None (Some [(''payload'', JNum 7), (''isLeader'', JBool False),
                               (''leaderHost'', JNull), (''followerHost'', JStr ''A'')])),
          Did (Status ''yellow'' ''ring'' ''follower (leader: unknown)'')]"
    using expired_mid_trigger [of "boot (held_by ''job-x'' ''B'' 10)" cfgA "''B''" 10 10
        "[(''payload'', JNum 7)]"] p
    by (simp add: since_def boot_def cfgA_def)
  have y: "history (run (on_input cfgA [(''payload'', JNum 7)])
                [quiet, \<lparr>before = [Foreign (DEL ''job-x'')], throws = False\<rparr>]
                (boot (held_by ''job-x'' ''B'' 10)))
       = [Called (SET_NX_EX ''job-x'' ''A'' 10) NullReply,
          Called (GET ''job-x'') NullReply, Called (GET ''job-x'') NullReply,
          Did (Send None (Some [(''payload'', JNum 7), (''isLeader'', JBool False),
                               (''leaderHost'', JNull), (''followerHost'', JStr ''A'')])),
          Did (Status ''yellow'' ''ring'' ''follower (leader: unknown)'')]"
    using deleted_mid_trigger [of "boot (held_by ''job-x'' ''B'' 10)" cfgA "''B''"
        "[(''payload'', JNum 7)]"] p
    by (simp add: since_def boot_def cfgA_def)
  from C10_follower_output_without_leader [of "boot (held_by ''job-x'' ''B'' 10)" cfgA "''B''" 10 10
      "[(''payload'', JNum 7)]"] p x y
  show ?thesis by simp
qed

section \<open>Renewal by the holder\<close>

lemma holder_renews:
  assumes "isConnected (node w)" "redisClient (node w)" "0 < lockTTL c"
    and "kv (redis w) (lockKey c) = Some (hostname c, e)"
    and "clock (redis w) + d1 + d2 + d3 < e"
  shows "run (on_input c m) [after d1, after d2, after d3] w =
     w\<lparr>redis := \<lparr>clock = clock (redis w) + d1 + d2 + d3,
                  kv = (kv (redis w))(lockKey c \<mapsto>
                         (hostname c, clock (redis w) + d1 + d2 + d3 + nat (lockTTL c)))\<rparr>,
       history := history w @
         [Called (SET_NX_EX (lockKey c) (hostname c) (lockTTL c)) NullReply,
          Called (GET (lockKey c)) (Bulk (hostname c)),
          Called (EXPIRE (lockKey c) (lockTTL c)) (Count 1),
          Did (Send (Some (assign ''leaderHost'' (JStr (hostname c))
                          (assign ''isLeader'' (JBool True) m))) None),
          Did (Status ''green'' ''dot'' (''leader ('' @ take 12 (hostname c) @ '')''))]\<rparr>"
  using assms
  by (simp add: on_input_def checkLeadership_def refreshLeadership_def route_def
      call_def after_def holder_def)

lemma holder_keeps_renewing:
  assumes "isConnected (node w)" "redisClient (node w)" "0 < lockTTL c"
    and "kv (redis w) (lockKey c) = Some (hostname c, e)" "clock (redis w) < e"
    and "timely (e - clock (redis w)) (nat (lockTTL c)) calls"
  shows "history (triggers c calls w) = history w @ concat (map (\<lambda>x. renewal c (fst x)) calls)
       \<and> holder (redis (triggers c calls w)) (lockKey c) = Some (hostname c)"
  using assms
proof (induction calls arbitrary: w e)
  case Nil
  then show ?case by (simp add: holder_def)
next
  case (Cons x calls)
  obtain m d1 d2 d3 where x: "x = (m, d1, d2, d3)" by (cases x) auto
  let ?w = "run (on_input c m) [after d1, after d2, after d3] w"
  from Cons.prems x have d: "clock (redis w) + d1 + d2 + d3 < e" by auto
  from holder_renews [OF Cons.prems(1-4) d, of m]
  have r: "?w =
     w\<lparr>redis := \<lparr>clock = clock (redis w) + d1 + d2 + d3,
                  kv = (kv (redis w))(lockKey c \<mapsto>
                         (hostname c, clock (redis w) + d1 + d2 + d3 + nat (lockTTL c)))\<rparr>,
       history := history w @ renewal c m\<rparr>"
    by (simp add: renewal_def)
  have n: "isConnected (node ?w)" "redisClient (node ?w)"
    and k: "kv (redis ?w) (lockKey c) = Some (hostname c, clock (redis ?w) + nat (lockTTL c))"
    and l: "clock (redis ?w) < clock (redis ?w) + nat (lockTTL c)"
    and h: "history ?w = history w @ renewal c m"
    using Cons.prems(1-3) by (simp_all add: r)
  from Cons.prems(6) x
  have t: "timely (clock (redis ?w) + nat (lockTTL c) - clock (redis ?w)) (nat (lockTTL c)) calls"
    by simp
  from Cons.IH [OF n Cons.prems(3) k l t] show ?case
    by (simp add: x h)
qed


text \<open>
  C3. A connected node whose identity is the value of the lock key, with a positive
  TTL. A trigger it handles while the lease lasts (time may pass before each of its
  three commands, the lease not expiring before the last) goes like this: the
  conditional set is refused, the holder read returns the node's own identity, the
  expiry is refreshed, the message goes to the leader output; afterwards the node
  still holds the lease, which now expires a full TTL after the refresh: not earlier
  than before, for a lease that was set or refreshed with this TTL. And so on every
  repeated call: any sequence of triggers, each one completed before the lease as it
  then stands expires, consists of such renewals only and leaves the node the holder.
\<close>

theorem C3_holder_renews:
  "isConnected (node w) \<and> redisClient (node w) \<and> 0 < lockTTL c
   \<and> kv (redis w) (lockKey c) = Some (hostname c, e) \<longrightarrow>
     (clock (redis w) + d1 + d2 + d3 < e \<longrightarrow>
        since w (run (on_input c m) [after d1, after d2, after d3] w) = renewal c m
      \<and> verdict_of (effects (since w (run (on_input c m) [after d1, after d2, after d3] w))) = Leading
      \<and> clock (redis (run (on_input c m) [after d1, after d2, after d3] w))
           = clock (redis w) + d1 + d2 + d3
      \<and> kv (redis (run (on_input c m) [after d1, after d2, after d3] w)) (lockKey c)
           = Some (hostname c, clock (redis w) + d1 + d2 + d3 + nat (lockTTL c))
      \<and> holder (redis (run (on_input c m) [after d1, after d2, after d3] w)) (lockKey c)
           = Some (hostname c)
      \<and> (e \<le> clock (redis w) + nat (lockTTL c) \<longrightarrow>
           e \<le> clock (redis w) + d1 + d2 + d3 + nat (lockTTL c)))
   \<and> (clock (redis w) < e \<and> timely (e - clock (redis w)) (nat (lockTTL c)) calls \<longrightarrow>
        history (triggers c calls w) = history w @ concat (map (\<lambda>x. renewal c (fst x)) calls)
      \<and> holder (redis (triggers c calls w)) (lockKey c) = Some (hostname c))"
proof (intro impI conjI)
  assume a: "isConnected (node w) \<and> redisClient (node w) \<and> 0 < lockTTL c
   \<and> kv (redis w) (lockKey c) = Some (hostname c, e)"
  assume b: "clock (redis w) < e \<and> timely (e - clock (redis w)) (nat (lockTTL c)) calls"
  from a b holder_keeps_renewing [of w c e calls]
  show "history (triggers c calls w) = history w @ concat (map (\<lambda>x. renewal c (fst x)) calls)"
    and "holder (redis (triggers c calls w)) (lockKey c) = Some (hostname c)"
    by blast+
next
  assume a: "isConnected (node w) \<and> redisClient (node w) \<and> 0 < lockTTL c
   \<and> kv (redis w) (lockKey c) = Some (hostname c, e)"
  assume d: "clock (redis w) + d1 + d2 + d3 < e"
  from a d have r: "run (on_input c m) [after d1, after d2, after d3] w =
     w\<lparr>redis := \<lparr>clock = clock (redis w) + d1 + d2 + d3,
                  kv = (kv (redis w))(lockKey c \<mapsto>
                         (hostname c, clock (redis w) + d1 + d2 + d3 + nat (lockTTL c)))\<rparr>,
       history := history w @ renewal c m\<rparr>"
    by (simp add: holder_renews renewal_def)
  from a have t: "0 < lockTTL c" by simp
  show "since w (run (on_input c m) [after d1, after d2, after d3] w) = renewal c m"
    and "verdict_of (effects (since w (run (on_input c m) [after d1, after d2, after d3] w))) = Leading"
    and "clock (redis (run (on_input c m) [after d1, after d2, after d3] w))
           = clock (redis w) + d1 + d2 + d3"
    and "kv (redis (run (on_input c m) [after d1, after d2, after d3] w)) (lockKey c)
           = Some (hostname c, clock (redis w) + d1 + d2 + d3 + nat (lockTTL c))"
    and "holder (redis (run (on_input c m) [after d1, after d2, after d3] w)) (lockKey c)
           = Some (hostname c)"
    unfolding r using t by (simp_all add: since_def holder_def renewal_def)
  assume "e \<le> clock (redis w) + nat (lockTTL c)"
  then show "e \<le> clock (redis w) + d1 + d2 + d3 + nat (lockTTL c)" by simp
qed

theorem C3_witness:
  "isConnected (node (boot (held_by ''job-x'' ''A'' 10)))
   \<and> redisClient (node (boot (held_by ''job-x'' ''A'' 10)))
   \<and> 0 < lockTTL cfgA
   \<and> kv (redis (boot (held_by ''job-x'' ''A'' 10))) (lockKey cfgA) = Some (hostname cfgA, 10)
   \<and> clock (redis (boot (held_by ''job-x'' ''A'' 10))) + 3 + 2 + 1 < (10 :: nat)
   \<and> (10 :: nat) \<le> clock (redis (boot (held_by ''job-x'' ''A'' 10))) + nat (lockTTL cfgA)
   \<and> verdict_of (effects (since (boot (held_by ''job-x'' ''A'' 10))
        (run (on_input cfgA []) [after 3, after 2, after 1] (boot (held_by ''job-x'' ''A'' 10)))))
       = Leading
   \<and> kv (redis (run (on_input cfgA []) [after 3, after 2, after 1] (boot (held_by ''job-x'' ''A'' 10))))
        ''job-x'' = Some (''A'', 16)
   \<and> timely (10 - clock (redis (boot (held_by ''job-x'' ''A'' 10)))) (nat (lockTTL cfgA))
        [([], 3, 2, 1), ([(''n'', JNum 2)], 9, 0, 0), ([], 0, 0, 9)]
   \<and> verdict_of (effects (drop 5 (history (triggers cfgA
        [([], 3, 2, 1), ([(''n'', JNum 2)], 9, 0, 0), ([], 0, 0, 9)]
        (boot (held_by ''job-x'' ''A'' 10)))))) = Leading
   \<and> holder (redis (triggers cfgA [([], 3, 2, 1), ([(''n'', JNum 2)], 9, 0, 0), ([], 0, 0, 9)]
        (boot (held_by ''job-x'' ''A'' 10)))) ''job-x'' = Some ''A''"
proof -
  have p: "isConnected (node (boot (held_by ''job-x'' ''A'' 10)))
   \<and> redisClient (node (boot (held_by ''job-x'' ''A'' 10)))
   \<and> 0 < lockTTL cfgA
   \<and> kv (redis (boot (held_by ''job-x'' ''A'' 10))) (lockKey cfgA) = Some (hostname cfgA, 10)"
    by (simp add: boot_def online_def held_by_def cfgA_def)
  have q: "clock (redis (boot (held_by ''job-x'' ''A'' 10))) = 0" "lockTTL cfgA = 10"
    "lockKey cfgA = ''job-x''" "hostname cfgA = ''A''" "history (boot (held_by ''job-x'' ''A'' 10)) = []"
    by (simp_all add: boot_def held_by_def cfgA_def)
  have t: "timely 10 10 [([], 3, 2, 1), ([(''n'', JNum 2)], 9, 0, 0), ([], 0, 0, 9)]"
    by simp
  from C3_holder_renews [of "boot (held_by ''job-x'' ''A'' 10)" cfgA 10 3 2 1 "[]"
      "[([], 3, 2, 1), ([(''n'', JNum 2)], 9, 0, 0), ([], 0, 0, 9)]"] p t
  show ?thesis by (simp add: q renewal_def)
qed

section \<open>The configured TTL\<close>

lemma acquisition_ttl:
  "(SET_NX_EX k v t, r) \<in> set (commands (since w (run (on_input c m) env w))) \<longrightarrow> t = lockTTL c"
  by (rule always_run)
     (simp add: on_input_def checkLeadership_def refreshLeadership_def route_def)

text \<open>
  C6, as the code has it. No configured TTL makes start-up fail: the constructor never
  reports a configuration error and always goes on with its settings. A configured
  TTL that parses to zero, or does not parse to a number, is replaced by 10, so the
  TTL of the settings is never zero and a trigger never issues a conditional set with
  a zero expiry; a configured TTL that parses to a positive number is used as it is.
\<close>

theorem C6_ttl_defaulted_not_rejected:
  "ClusterLeaderNode config h \<noteq> Inl ConfigurationError
   \<and> (\<exists>st. ClusterLeaderNode config h = Inr st
        \<and> lockTTL st \<noteq> 0
        \<and> (parseInt (cfg_lockTTL config) = None \<or> parseInt (cfg_lockTTL config) = Some 0
             \<longrightarrow> lockTTL st = 10)
        \<and> (\<forall>n. 0 < n \<and> parseInt (cfg_lockTTL config) = Some n \<longrightarrow> lockTTL st = n)
        \<and> (\<forall>m env w k v r.
              (SET_NX_EX k v 0, r) \<notin> set (commands (since w (run (on_input st m) env w)))))"
proof (intro conjI)
  let ?st = "\<lparr>lockKey = or_else (cfg_lockKey config) ''nodered:leader'',
              lockTTL = (case parseInt (cfg_lockTTL config) of
                           None \<Rightarrow> 10 | Some n \<Rightarrow> if n = 0 then 10 else n),
              hostname = or_else (env_HOSTNAME h) (os_hostname h)\<rparr>"
  have e: "ClusterLeaderNode config h = Inr ?st" by (simp add: ClusterLeaderNode_def)
  show "ClusterLeaderNode config h \<noteq> Inl ConfigurationError" by (simp add: e)
  have z: "lockTTL ?st \<noteq> 0" by (simp split: option.splits)
  have d: "parseInt (cfg_lockTTL config) = None \<or> parseInt (cfg_lockTTL config) = Some 0
             \<longrightarrow> lockTTL ?st = 10" by auto
  have p: "\<forall>n. 0 < n \<and> parseInt (cfg_lockTTL config) = Some n \<longrightarrow> lockTTL ?st = n" by auto
  have s: "\<forall>m env w k v r.
              (SET_NX_EX k v 0, r) \<notin> set (commands (since w (run (on_input ?st m) env w)))"
  proof (intro allI notI)
    fix m env w k v r
    assume "(SET_NX_EX k v 0, r) \<in> set (commands (since w (run (on_input ?st m) env w)))"
    with acquisition_ttl [of k v 0 r w ?st m env] have "0 = lockTTL ?st" by blast
    with z show False by simp
  qed
  show "\<exists>st. ClusterLeaderNode config h = Inr st
        \<and> lockTTL st \<noteq> 0
        \<and> (parseInt (cfg_lockTTL config) = None \<or> parseInt (cfg_lockTTL config) = Some 0
             \<longrightarrow> lockTTL st = 10)
        \<and> (\<forall>n. 0 < n \<and> parseInt (cfg_lockTTL config) = Some n \<longrightarrow> lockTTL st = n)
        \<and> (\<forall>m env w k v r.
              (SET_NX_EX k v 0, r) \<notin> set (commands (since w (run (on_input st m) env w))))"
    by (rule exI [of _ ?st]) (use e z d p s in blast)
qed

text \<open>A configured TTL of zero, as a number and as a string: no error, the TTL is 10.\<close>

theorem C6_counterexample:
  "ClusterLeaderNode \<lparr>cfg_lockKey = None, cfg_lockTTL = CfgNumber 0\<rparr>
                     \<lparr>env_HOSTNAME = Some ''A'', os_hostname = ''box''\<rparr>
     = Inr \<lparr>lockKey = ''nodered:leader'', lockTTL = 10, hostname = ''A''\<rparr>
   \<and> ClusterLeaderNode \<lparr>cfg_lockKey = Some ''job-x'', cfg_lockTTL = CfgString ''0''\<rparr>
                       \<lparr>env_HOSTNAME = None, os_hostname = ''box''\<rparr>
     = Inr \<lparr>lockKey = ''job-x'', lockTTL = 10, hostname = ''box''\<rparr>"
  by (simp add: ClusterLeaderNode_def parseInt_def or_else_def unsigned_value_def
      digits_value_def digit_of_def is_space_def)

theorem C6_witness:
  "parseInt (CfgString '' 0'') = Some 0
   \<and> ClusterLeaderNode \<lparr>cfg_lockKey = None, cfg_lockTTL = CfgString '' 0''\<rparr>
                       \<lparr>env_HOSTNAME = None, os_hostname = ''box''\<rparr>
       = Inr \<lparr>lockKey = ''nodered:leader'', lockTTL = 10, hostname = ''box''\<rparr>
   \<and> parseInt (CfgString ''30s'') = Some 30
   \<and> (\<exists>st. ClusterLeaderNode \<lparr>cfg_lockKey = None, cfg_lockTTL = CfgString ''30s''\<rparr>
                       \<lparr>env_HOSTNAME = None, os_hostname = ''box''\<rparr> = Inr st \<and> lockTTL st = 30)"
proof -
  have a: "parseInt (CfgString '' 0'') = Some 0" "parseInt (CfgString ''30s'') = Some 30"
    by (simp_all add: parseInt_def unsigned_value_def digits_value_def digit_of_def is_space_def)
  have k: "or_else None x = x" for x by (simp add: or_else_def)
  from C6_ttl_defaulted_not_rejected [of "\<lparr>cfg_lockKey = None, cfg_lockTTL = CfgString '' 0''\<rparr>"
        "\<lparr>env_HOSTNAME = None, os_hostname = ''box''\<rparr>"]
    C6_ttl_defaulted_not_rejected [of "\<lparr>cfg_lockKey = None, cfg_lockTTL = CfgString ''30s''\<rparr>"
        "\<lparr>env_HOSTNAME = None, os_hostname = ''box''\<rparr>"] a
  show ?thesis by (simp add: ClusterLeaderNode_def k)
qed

section \<open>A lone replica runs as a single handler does\<close>

text \<open>
  The two ways of running a handler agree: a replica that is served alone, often
  enough, ends with the history and the store of a run of its handler without
  interference.
\<close>

lemma perform_as_update:
  "perform e \<lparr>redis = s, node = n, ticking = tk, history = t\<rparr>
     = \<lparr>redis = s, node = n, ticking = (e \<noteq> ClearInterval \<and> tk), history = t @ [Did e]\<rparr>"
  by (cases e) (simp_all add: perform_def)

lemma lone_replica:
  assumes "replicas C p = \<lparr>code = snd (settle P n), vars = n, trail = t @ fst (settle P n)\<rparr>"
  shows "\<exists>j. \<forall>i \<ge> j.
           code (replicas (interleave (replicate i (Resume p)) C) p) = Return
         \<and> trail (replicas (interleave (replicate i (Resume p)) C) p)
             = history (run P [] \<lparr>redis = shared C, node = n, ticking = tk, history = t\<rparr>)
         \<and> shared (interleave (replicate i (Resume p)) C)
             = redis (run P [] \<lparr>redis = shared C, node = n, ticking = tk, history = t\<rparr>)"
  using assms
proof (induction P arbitrary: C t tk)
  case Return
  have "interleave (replicate i (Resume p)) C = C" for i
    using Return by (induction i) (simp_all add: interleave_def resume_def)
  with Return show ?case by simp
next
  case (Effect e P)
  define tk' where "tk' = (e \<noteq> ClearInterval \<and> tk)"
  have pf: "perform e \<lparr>redis = shared C, node = n, ticking = tk, history = t\<rparr>
            = \<lparr>redis = shared C, node = n, ticking = tk', history = t @ [Did e]\<rparr>"
    by (simp add: perform_as_update tk'_def)
  from Effect.prems
  have "replicas C p = \<lparr>code = snd (settle P n), vars = n, trail = (t @ [Did e]) @ fst (settle P n)\<rparr>"
    by simp
  from Effect.IH [OF this, of tk'] show ?case by (simp add: pf)
next
  case (Read k)
  from Read.prems
  have "replicas C p = \<lparr>code = snd (settle (k n) n), vars = n, trail = t @ fst (settle (k n) n)\<rparr>"
    by simp
  from Read.IH [OF _ this, of tk] show ?case by simp
next
  case (Await c k)
  show ?case
  proof (cases "redisClient n")
    case False
    with Await.prems
    have "replicas C p = \<lparr>code = snd (settle (k Threw) n), vars = n, trail = t @ fst (settle (k Threw) n)\<rparr>"
      by simp
    from Await.IH [OF _ this, of tk] False show ?thesis by simp
  next
    case True
    define r where "r = fst (exec c (shared C))"
    define C1 where "C1 = resume p C"
    from Await.prems True
    have rp: "replicas C p = \<lparr>code = Await c k, vars = n, trail = t\<rparr>" by simp
    then have 1: "replicas C1 p =
        \<lparr>code = snd (settle (k r) n), vars = n, trail = (t @ [Called c r]) @ fst (settle (k r) n)\<rparr>"
      and 2: "shared C1 = snd (exec c (shared C))"
      by (simp_all add: C1_def resume_def Let_def r_def)
    from Await.IH [OF _ 1, of tk] obtain j where j: "\<forall>i \<ge> j.
           code (replicas (interleave (replicate i (Resume p)) C1) p) = Return
         \<and> trail (replicas (interleave (replicate i (Resume p)) C1) p)
             = history (run (k r) [] \<lparr>redis = shared C1, node = n, ticking = tk, history = t @ [Called c r]\<rparr>)
         \<and> shared (interleave (replicate i (Resume p)) C1)
             = redis (run (k r) [] \<lparr>redis = shared C1, node = n, ticking = tk, history = t @ [Called c r]\<rparr>)"
      by blast
    have run: "run (Await c k) [] \<lparr>redis = shared C, node = n, ticking = tk, history = t\<rparr>
        = run (k r) [] \<lparr>redis = shared C1, node = n, ticking = tk, history = t @ [Called c r]\<rparr>"
      using True by (simp add: call_def quiet_def r_def 2 split: prod.splits)
    have "\<forall>i \<ge> Suc j.
           code (replicas (interleave (replicate i (Resume p)) C) p) = Return
         \<and> trail (replicas (interleave (replicate i (Resume p)) C) p)
             = history (run (Await c k) [] \<lparr>redis = shared C, node = n, ticking = tk, history = t\<rparr>)
         \<and> shared (interleave (replicate i (Resume p)) C)
             = redis (run (Await c k) [] \<lparr>redis = shared C, node = n, ticking = tk, history = t\<rparr>)"
    proof (intro allI impI)
      fix i assume "Suc j \<le> i"
      then obtain i' where i: "i = Suc i'" "j \<le> i'" by (cases i) auto
      have "interleave (replicate i (Resume p)) C = interleave (replicate i' (Resume p)) C1"
        by (simp add: i interleave_def C1_def)
      with j i(2) show "code (replicas (interleave (replicate i (Resume p)) C) p) = Return
         \<and> trail (replicas (interleave (replicate i (Resume p)) C) p)
             = history (run (Await c k) [] \<lparr>redis = shared C, node = n, ticking = tk, history = t\<rparr>)
         \<and> shared (interleave (replicate i (Resume p)) C)
             = redis (run (Await c k) [] \<lparr>redis = shared C, node = n, ticking = tk, history = t\<rparr>)"
        unfolding run by simp
    qed
    then show ?thesis by blast
  qed
qed

section \<open>Mutual exclusion\<close>

lemma resume_returned: "code (replicas C p) = Return \<Longrightarrow> resume p C = C"
  by (simp add: resume_def)

lemma resume_wins:
  "replicas C p = started (on_input (candidate k ttl p) m) online \<Longrightarrow> 0 < ttl \<Longrightarrow>
   holder (shared C) k = None \<Longrightarrow>
   resume p C = C\<lparr>shared := (shared C)\<lparr>kv := (kv (shared C))(k \<mapsto> (p, clock (shared C) + nat ttl))\<rparr>,
                  replicas := (replicas C)(p := won k ttl m p)\<rparr>"
  by (simp add: resume_def Let_def started_def on_input_def checkLeadership_def route_def online_def won_def)

lemma resume_refused:
  "replicas C p = started (on_input (candidate k ttl p) m) online \<Longrightarrow> 0 < ttl \<Longrightarrow>
   holder (shared C) k = Some w \<Longrightarrow>
   resume p C = C\<lparr>replicas := (replicas C)(p := refused k ttl m p)\<rparr>"
  by (simp add: resume_def Let_def started_def on_input_def checkLeadership_def refreshLeadership_def online_def refused_def)

lemma resume_yields:
  "replicas C p = refused k ttl m p \<Longrightarrow> holder (shared C) k = Some w \<Longrightarrow> w \<noteq> p \<Longrightarrow>
   resume p C = C\<lparr>replicas := (replicas C)(p := yielding k ttl m w p)\<rparr>"
  by (simp add: resume_def Let_def refused_def refreshLeadership_def route_def online_def yielding_def)

lemma resume_follows:
  "replicas C p = yielding k ttl m w p \<Longrightarrow> holder (shared C) k = Some w \<Longrightarrow>
   resume p C = C\<lparr>replicas := (replicas C)(p := lost k ttl m w p)\<rparr>"
  by (simp add: resume_def Let_def yielding_def route_def online_def lost_def to_js_def truthy_def reply_text_def)

lemma holder_later: "holder s k = None \<Longrightarrow> holder (s\<lparr>clock := clock s + d\<rparr>) k = None"
  by (auto simp: holder_def split: option.splits if_splits)

lemma holder_live: "kv s k = Some (w, e) \<Longrightarrow> clock s < e \<Longrightarrow> holder s k = Some w"
  by (simp add: holder_def)

lemma contested_tick:
  assumes "contested k ttl hs msgs (d + b) C"
  shows "contested k ttl hs msgs b (step C (Tick d))"
  using assms unfolding contested_def pending_def decided_def
  by (auto simp: holder_later)

lemma contested_resume:
  assumes inv: "contested k ttl hs msgs b C" and ttl: "0 < ttl"
  shows "contested k ttl hs msgs b (resume p C)"
proof (cases "p \<in> set hs")
  case False
  with inv have "code (replicas C p) = Return" by (simp add: contested_def)
  then show ?thesis using inv by (simp add: resume_returned)
next
  case p: True
  from inv have idle: "\<forall>q. q \<notin> set hs \<longrightarrow> code (replicas C q) = Return"
    by (simp add: contested_def)
  from inv consider (vacant) "pending k ttl hs msgs b C" | (held) w where "decided k ttl hs msgs b C w"
    unfolding contested_def by blast
  then show ?thesis
  proof cases
    case vacant
    then have v: "holder (shared C) k = None" "b < nat ttl"
      and "\<forall>q \<in> set hs. replicas C q = started (on_input (candidate k ttl q) (msgs q)) online"
      by (simp_all add: pending_def)
    with p have "replicas C p = started (on_input (candidate k ttl p) (msgs p)) online"
      by blast
    from resume_wins [OF this ttl v(1)]
    have r: "resume p C =
        C\<lparr>shared := (shared C)\<lparr>kv := (kv (shared C))(k \<mapsto> (p, clock (shared C) + nat ttl))\<rparr>,
          replicas := (replicas C)(p := won k ttl (msgs p) p)\<rparr>" .
    have "decided k ttl hs msgs b (resume p C) p"
      unfolding r decided_def using p vacant by (simp add: pending_def)
    then show ?thesis
      unfolding contested_def using idle p by (auto simp: r)
  next
    case held
    then obtain e where w: "w \<in> set hs" and e: "kv (shared C) k = Some (w, e)" "clock (shared C) + b < e"
      and win: "replicas C w = won k ttl (msgs w) w"
      and rest: "\<forall>q \<in> set hs. q \<noteq> w \<longrightarrow>
               replicas C q = started (on_input (candidate k ttl q) (msgs q)) online
             \<or> replicas C q = refused k ttl (msgs q) q
             \<or> replicas C q = yielding k ttl (msgs q) w q
             \<or> replicas C q = lost k ttl (msgs q) w q"
      unfolding decided_def by blast
    have h: "holder (shared C) k = Some w"
      using e by (simp add: holder_live)
    have keep: "decided k ttl hs msgs b (C\<lparr>replicas := (replicas C)(p := x)\<rparr>) w"
      if "p \<noteq> w" and "x = started (on_input (candidate k ttl p) (msgs p)) online
             \<or> x = refused k ttl (msgs p) p
             \<or> x = yielding k ttl (msgs p) w p
             \<or> x = lost k ttl (msgs p) w p" for x
      using held that unfolding decided_def by auto
    have same: "contested k ttl hs msgs b (C\<lparr>replicas := (replicas C)(p := x)\<rparr>)"
      if "decided k ttl hs msgs b (C\<lparr>replicas := (replicas C)(p := x)\<rparr>) w" for x
      unfolding contested_def using idle p that by auto
    show ?thesis
    proof (cases "p = w")
      case True
      with win have "code (replicas C p) = Return" by (simp add: won_def)
      then show ?thesis using inv by (simp add: resume_returned)
    next
      case False
      with rest p consider
          (a) "replicas C p = started (on_input (candidate k ttl p) (msgs p)) online"
        | (b) "replicas C p = refused k ttl (msgs p) p"
        | (c) "replicas C p = yielding k ttl (msgs p) w p"
        | (d) "replicas C p = lost k ttl (msgs p) w p"
        by blast
      then show ?thesis
      proof cases
        case a
        from resume_refused [OF a ttl h]
        have r: "resume p C = C\<lparr>replicas := (replicas C)(p := refused k ttl (msgs p) p)\<rparr>" .
        show ?thesis unfolding r using False by (intro same keep) simp_all
      next
        case b
        from False have "w \<noteq> p" by simp
        from resume_yields [OF b h this]
        have r: "resume p C = C\<lparr>replicas := (replicas C)(p := yielding k ttl (msgs p) w p)\<rparr>" .
        show ?thesis unfolding r using False by (intro same keep) simp_all
      next
        case c
        from resume_follows [OF c h]
        have r: "resume p C = C\<lparr>replicas := (replicas C)(p := lost k ttl (msgs p) w p)\<rparr>" .
        show ?thesis unfolding r using False by (intro same keep) simp_all
      next
        case d
        then have "code (replicas C p) = Return" by (simp add: lost_def)
        then show ?thesis using inv by (simp add: resume_returned)
      qed
    qed
  qed
qed

lemma contested_interleave:
  "0 < ttl \<Longrightarrow> contested k ttl hs msgs (elapsed sched) C \<Longrightarrow>
   contested k ttl hs msgs 0 (interleave sched C)"
proof (induction sched arbitrary: C)
  case Nil
  then show ?case by (simp add: interleave_def)
next
  case (Cons a sched)
  have "contested k ttl hs msgs (elapsed sched) (step C a)"
  proof (cases a)
    case (Resume p)
    with Cons.prems show ?thesis by (simp add: contested_resume)
  next
    case (Tick d)
    with Cons.prems have "contested k ttl hs msgs (d + elapsed sched) C" by simp
    then show ?thesis unfolding Tick by (rule contested_tick)
  qed
  from Cons.IH [OF Cons.prems(1) this] show ?case by (simp add: interleave_def)
qed

lemma contested_start:
  "holder s k = None \<Longrightarrow> b < nat ttl \<Longrightarrow> contested k ttl hs msgs b (contest k ttl hs msgs s)"
  by (simp add: contested_def pending_def contest_def)

lemma owed_phases [simp]:
  "owed (started (on_input (candidate k ttl p) m) online) = 3"
  "owed (refused k ttl m p) = 2"
  "owed (yielding k ttl m w p) = 1"
  "owed (lost k ttl m w p) = 0"
  "owed (won k ttl m p) = 0"
  by (simp_all add: owed_def started_def refused_def yielding_def lost_def won_def
      on_input_def checkLeadership_def refreshLeadership_def route_def online_def)

lemma verdict_phases [simp]:
  "verdict_of (effects (trail (started (on_input (candidate k ttl p) m) online))) = Unknown"
  "verdict_of (effects (trail (refused k ttl m p))) = Unknown"
  "verdict_of (effects (trail (yielding k ttl m w p))) = Unknown"
  "verdict_of (effects (trail (lost k ttl m w p))) = Following (Some w)"
  "verdict_of (effects (trail (won k ttl m p))) = Leading"
  by (simp_all add: started_def refused_def yielding_def lost_def won_def named_leader_def
      on_input_def checkLeadership_def online_def)

lemma resume_others: "q \<noteq> p \<Longrightarrow> replicas (resume p C) q = replicas C q"
  by (simp add: resume_def Let_def split: prog.splits)

lemma resume_progress:
  assumes inv: "contested k ttl hs msgs b C" and ttl: "0 < ttl" and p: "p \<in> set hs"
  shows "owed (replicas (resume p C) p) \<le> owed (replicas C p) - 1"
proof -
  from inv consider (vacant) "pending k ttl hs msgs b C" | (held) w where "decided k ttl hs msgs b C w"
    unfolding contested_def by blast
  then show ?thesis
  proof cases
    case vacant
    then have v: "holder (shared C) k = None"
      and "\<forall>q \<in> set hs. replicas C q = started (on_input (candidate k ttl q) (msgs q)) online"
      by (simp_all add: pending_def)
    with p have a: "replicas C p = started (on_input (candidate k ttl p) (msgs p)) online"
      by blast
    from resume_wins [OF a ttl v] show ?thesis by (simp add: a)
  next
    case held
    then obtain e where e: "kv (shared C) k = Some (w, e)" "clock (shared C) + b < e"
      and win: "replicas C w = won k ttl (msgs w) w"
      and rest: "\<forall>q \<in> set hs. q \<noteq> w \<longrightarrow>
               replicas C q = started (on_input (candidate k ttl q) (msgs q)) online
             \<or> replicas C q = refused k ttl (msgs q) q
             \<or> replicas C q = yielding k ttl (msgs q) w q
             \<or> replicas C q = lost k ttl (msgs q) w q"
      unfolding decided_def by blast
    have h: "holder (shared C) k = Some w"
      using e by (simp add: holder_live)
    show ?thesis
    proof (cases "p = w")
      case True
      with win have "code (replicas C p) = Return" by (simp add: won_def)
      then show ?thesis by (simp add: resume_returned owed_def)
    next
      case False
      with rest p consider
          (a) "replicas C p = started (on_input (candidate k ttl p) (msgs p)) online"
        | (b) "replicas C p = refused k ttl (msgs p) p"
        | (c) "replicas C p = yielding k ttl (msgs p) w p"
        | (d) "replicas C p = lost k ttl (msgs p) w p"
        by blast
      then show ?thesis
      proof cases
        case a
        from resume_refused [OF a ttl h] show ?thesis by (simp add: a)
      next
        case b
        from False have "w \<noteq> p" by simp
        from resume_yields [OF b h this] show ?thesis by (simp add: b)
      next
        case c
        from resume_follows [OF c h] show ?thesis by (simp add: c)
      next
        case d
        then have "code (replicas C p) = Return" by (simp add: lost_def)
        then show ?thesis by (simp add: resume_returned owed_def)
      qed
    qed
  qed
qed

lemma served_progress:
  "0 < ttl \<Longrightarrow> contested k ttl hs msgs (elapsed sched) C \<Longrightarrow> p \<in> set hs \<Longrightarrow>
   owed (replicas (interleave sched C) p) \<le> owed (replicas C p) - count_list sched (Resume p)"
proof (induction sched arbitrary: C)
  case Nil
  then show ?case by (simp add: interleave_def)
next
  case (Cons a sched)
  have inv: "contested k ttl hs msgs (elapsed sched) (step C a)"
  proof (cases a)
    case (Resume q)
    with Cons.prems show ?thesis by (simp add: contested_resume)
  next
    case (Tick d)
    with Cons.prems have "contested k ttl hs msgs (d + elapsed sched) C" by simp
    then show ?thesis unfolding Tick by (rule contested_tick)
  qed
  from Cons.IH [OF Cons.prems(1) inv Cons.prems(3)]
  have ih: "owed (replicas (interleave sched (step C a)) p)
              \<le> owed (replicas (step C a) p) - count_list sched (Resume p)" .
  have one: "owed (replicas (step C a) p) \<le> owed (replicas C p) - (if a = Resume p then 1 else 0)"
  proof (cases a)
    case (Resume q)
    show ?thesis
    proof (cases "q = p")
      case True
      from Cons.prems(2) have "contested k ttl hs msgs (elapsed sched) C"
        by (simp add: Resume)
      from resume_progress [OF this Cons.prems(1) Cons.prems(3)] show ?thesis
        by (simp add: Resume True)
    next
      case False
      then show ?thesis by (simp add: Resume resume_others)
    qed
  next
    case (Tick d)
    then show ?thesis by simp
  qed
  from ih one show ?case by (cases "a = Resume p") (auto simp: interleave_def)
qed

lemma contest_verdicts:
  assumes inv: "contested k ttl hs msgs 0 C" and "hs \<noteq> []"
    and ret: "\<forall>p \<in> set hs. code (replicas C p) = Return"
  shows "\<exists>w \<in> set hs. holder (shared C) k = Some w \<and> outcome C w = Leading
           \<and> (\<forall>p \<in> set hs. p \<noteq> w \<longrightarrow> outcome C p = Following (Some w))"
proof -
  from \<open>hs \<noteq> []\<close> obtain q where q: "q \<in> set hs" by (cases hs) auto
  have busy: "code (started (on_input (candidate k ttl p) m) online) \<noteq> Return"
    "code (refused k ttl m p) \<noteq> Return" "code (yielding k ttl m w p) \<noteq> Return" for p m w
    by (simp_all add: started_def refused_def yielding_def on_input_def checkLeadership_def
        refreshLeadership_def route_def online_def)
  from inv consider (vacant) "pending k ttl hs msgs 0 C" | (held) w where "decided k ttl hs msgs 0 C w"
    unfolding contested_def by blast
  then show ?thesis
  proof cases
    case vacant
    with q have "replicas C q = started (on_input (candidate k ttl q) (msgs q)) online"
      by (simp add: pending_def)
    with ret q show ?thesis by (auto simp: busy)
  next
    case held
    then obtain e where w: "w \<in> set hs" and e: "kv (shared C) k = Some (w, e)" "clock (shared C) < e"
      and win: "replicas C w = won k ttl (msgs w) w"
      and rest: "\<forall>q \<in> set hs. q \<noteq> w \<longrightarrow>
               replicas C q = started (on_input (candidate k ttl q) (msgs q)) online
             \<or> replicas C q = refused k ttl (msgs q) q
             \<or> replicas C q = yielding k ttl (msgs q) w q
             \<or> replicas C q = lost k ttl (msgs q) w q"
      unfolding decided_def by auto
    have "outcome C p = Following (Some w)" if "p \<in> set hs" "p \<noteq> w" for p
    proof -
      from ret that have "code (replicas C p) = Return" by blast
      with rest that have "replicas C p = lost k ttl (msgs p) w p"
        by (auto simp: busy)
      then show ?thesis by (simp add: outcome_def)
    qed
    moreover have "outcome C w = Leading" using win by (simp add: outcome_def)
    moreover have "holder (shared C) k = Some w" using e by (simp add: holder_live)
    ultimately show ?thesis using w by blast
  qed
qed

lemma contest_one_leader:
  assumes inv: "contested k ttl hs msgs b C"
    and "p \<in> set hs" "q \<in> set hs" "outcome C p = Leading" "outcome C q = Leading"
  shows "p = q"
proof -
  from inv consider (vacant) "pending k ttl hs msgs b C" | (held) w where "decided k ttl hs msgs b C w"
    unfolding contested_def by blast
  then show ?thesis
  proof cases
    case vacant
    with assms(2,4) show ?thesis by (simp add: pending_def outcome_def)
  next
    case held
    then have rest: "\<forall>q \<in> set hs. q \<noteq> w \<longrightarrow>
               replicas C q = started (on_input (candidate k ttl q) (msgs q)) online
             \<or> replicas C q = refused k ttl (msgs q) q
             \<or> replicas C q = yielding k ttl (msgs q) w q
             \<or> replicas C q = lost k ttl (msgs q) w q"
      unfolding decided_def by blast
    have "x = w" if "x \<in> set hs" "outcome C x = Leading" for x
    proof (rule ccontr)
      assume "x \<noteq> w"
      with rest that(1) have "outcome C x \<noteq> Leading"
        by (auto simp: outcome_def)
      with that(2) show False by simp
    qed
    with assms show ?thesis by blast
  qed
qed

lemma owed_zero_returned:
  assumes inv: "contested k ttl hs msgs b C" and p: "p \<in> set hs" and z: "owed (replicas C p) = 0"
  shows "code (replicas C p) = Return"
proof -
  from inv consider (vacant) "pending k ttl hs msgs b C" | (held) w where "decided k ttl hs msgs b C w"
    unfolding contested_def by blast
  then show ?thesis
  proof cases
    case vacant
    with p have "replicas C p = started (on_input (candidate k ttl p) (msgs p)) online"
      by (simp add: pending_def)
    with z show ?thesis by simp
  next
    case held
    then have win: "replicas C w = won k ttl (msgs w) w"
      and rest: "\<forall>q \<in> set hs. q \<noteq> w \<longrightarrow>
               replicas C q = started (on_input (candidate k ttl q) (msgs q)) online
             \<or> replicas C q = refused k ttl (msgs q) q
             \<or> replicas C q = yielding k ttl (msgs q) w q
             \<or> replicas C q = lost k ttl (msgs q) w q"
      unfolding decided_def by blast+
    show ?thesis
    proof (cases "p = w")
      case True
      with win show ?thesis by (simp add: won_def)
    next
      case False
      with rest p z show ?thesis by (auto simp: lost_def)
    qed
  qed
qed

text \<open>
  C1. Any number of replicas with distinct identities (a replica is known by its
  identity), at least one, each with a trigger pending on the same vacant lock key,
  with the same positive TTL, connected, no command rejected. The store serves their
  commands one at a time in any order, and time may pass between them, less than the
  TTL in total. Then: once every replica has been served three times, every handler
  has returned; whenever all handlers have returned, one replica is the holder and
  has sent on the leader output, and every other one has sent on the follower output
  naming that holder; and at no moment have two replicas sent on the leader output.
\<close>

theorem C1_mutual_exclusion:
  "0 < ttl \<and> holder s k = None \<and> elapsed sched < nat ttl \<and> hs \<noteq> [] \<longrightarrow>
     ((\<forall>p \<in> set hs. 3 \<le> count_list sched (Resume p)) \<longrightarrow>
        (\<forall>p \<in> set hs. code (replicas (interleave sched (contest k ttl hs msgs s)) p) = Return))
   \<and> ((\<forall>p \<in> set hs. code (replicas (interleave sched (contest k ttl hs msgs s)) p) = Return) \<longrightarrow>
        (\<exists>w \<in> set hs.
            holder (shared (interleave sched (contest k ttl hs msgs s))) k = Some w
          \<and> outcome (interleave sched (contest k ttl hs msgs s)) w = Leading
          \<and> (\<forall>p \<in> set hs. p \<noteq> w \<longrightarrow>
                outcome (interleave sched (contest k ttl hs msgs s)) p = Following (Some w))))
   \<and> (\<forall>p \<in> set hs. \<forall>q \<in> set hs.
         outcome (interleave sched (contest k ttl hs msgs s)) p = Leading
       \<and> outcome (interleave sched (contest k ttl hs msgs s)) q = Leading \<longrightarrow> p = q)"
proof (intro impI)
  assume a: "0 < ttl \<and> holder s k = None \<and> elapsed sched < nat ttl \<and> hs \<noteq> []"
  let ?C = "interleave sched (contest k ttl hs msgs s)"
  from a have start: "contested k ttl hs msgs (elapsed sched) (contest k ttl hs msgs s)"
    by (simp add: contested_start)
  with a have inv: "contested k ttl hs msgs 0 ?C"
    by (simp add: contested_interleave)
  have 1: "(\<forall>p \<in> set hs. 3 \<le> count_list sched (Resume p)) \<longrightarrow>
        (\<forall>p \<in> set hs. code (replicas ?C p) = Return)"
  proof (intro impI ballI)
    fix p assume fair: "\<forall>p \<in> set hs. 3 \<le> count_list sched (Resume p)" and p: "p \<in> set hs"
    from a have "0 < ttl" by simp
    from served_progress [OF this start p] have "owed (replicas ?C p)
        \<le> owed (replicas (contest k ttl hs msgs s) p) - count_list sched (Resume p)" .
    moreover from p have "owed (replicas (contest k ttl hs msgs s) p) = 3"
      by (simp add: contest_def)
    moreover from fair p have "3 \<le> count_list sched (Resume p)" by blast
    ultimately have "owed (replicas ?C p) = 0" by simp
    with inv p show "code (replicas ?C p) = Return" by (rule owed_zero_returned)
  qed
  have 2: "(\<forall>p \<in> set hs. code (replicas ?C p) = Return) \<longrightarrow>
        (\<exists>w \<in> set hs. holder (shared ?C) k = Some w \<and> outcome ?C w = Leading
          \<and> (\<forall>p \<in> set hs. p \<noteq> w \<longrightarrow> outcome ?C p = Following (Some w)))"
    using inv a by (blast intro: contest_verdicts)
  have 3: "\<forall>p \<in> set hs. \<forall>q \<in> set hs.
         outcome ?C p = Leading \<and> outcome ?C q = Leading \<longrightarrow> p = q"
    using inv by (blast intro: contest_one_leader)
  from 1 2 3 show "((\<forall>p \<in> set hs. 3 \<le> count_list sched (Resume p)) \<longrightarrow>
        (\<forall>p \<in> set hs. code (replicas ?C p) = Return))
   \<and> ((\<forall>p \<in> set hs. code (replicas ?C p) = Return) \<longrightarrow>
        (\<exists>w \<in> set hs. holder (shared ?C) k = Some w \<and> outcome ?C w = Leading
          \<and> (\<forall>p \<in> set hs. p \<noteq> w \<longrightarrow> outcome ?C p = Following (Some w))))
   \<and> (\<forall>p \<in> set hs. \<forall>q \<in> set hs.
         outcome ?C p = Leading \<and> outcome ?C q = Leading \<longrightarrow> p = q)"
    by blast
qed

lemma race_outcomes:
  "outcome (interleave race (contest ''job-x'' 10 [''A'', ''B'', ''C''] (\<lambda>_. []) vacant)) ''B'' = Leading"
  "outcome (interleave race (contest ''job-x'' 10 [''A'', ''B'', ''C''] (\<lambda>_. []) vacant)) ''A'' = Following (Some ''B'')"
  "outcome (interleave race (contest ''job-x'' 10 [''A'', ''B'', ''C''] (\<lambda>_. []) vacant)) ''C'' = Following (Some ''B'')"
  by (simp_all add: race_def interleave_def contest_def started_def resume_def Let_def outcome_def
      on_input_def checkLeadership_def refreshLeadership_def route_def online_def vacant_def
      holder_def named_leader_def to_js_def truthy_def reply_text_def)

theorem C1_witness:
  "(0 :: int) < 10 \<and> holder vacant ''job-x'' = None \<and> elapsed race < nat 10
   \<and> [''A'', ''B'', ''C''] \<noteq> []
   \<and> 3 \<le> count_list race (Resume ''A'') \<and> 3 \<le> count_list race (Resume ''B'')
   \<and> 3 \<le> count_list race (Resume ''C'')
   \<and> code (replicas (interleave race (contest ''job-x'' 10 [''A'', ''B'', ''C''] (\<lambda>_. []) vacant)) ''A'') = Return
   \<and> code (replicas (interleave race (contest ''job-x'' 10 [''A'', ''B'', ''C''] (\<lambda>_. []) vacant)) ''B'') = Return
   \<and> code (replicas (interleave race (contest ''job-x'' 10 [''A'', ''B'', ''C''] (\<lambda>_. []) vacant)) ''C'') = Return
   \<and> holder (shared (interleave race (contest ''job-x'' 10 [''A'', ''B'', ''C''] (\<lambda>_. []) vacant))) ''job-x'' = Some ''B''
   \<and> outcome (interleave race (contest ''job-x'' 10 [''A'', ''B'', ''C''] (\<lambda>_. []) vacant)) ''B'' = Leading
   \<and> outcome (interleave race (contest ''job-x'' 10 [''A'', ''B'', ''C''] (\<lambda>_. []) vacant)) ''A'' = Following (Some ''B'')
   \<and> outcome (interleave race (contest ''job-x'' 10 [''A'', ''B'', ''C''] (\<lambda>_. []) vacant)) ''C'' = Following (Some ''B'')"
proof -
  let ?C = "interleave race (contest ''job-x'' 10 [''A'', ''B'', ''C''] (\<lambda>_. []) vacant)"
  have pre: "(0 :: int) < 10 \<and> holder vacant ''job-x'' = None \<and> elapsed race < nat 10
      \<and> [''A'', ''B'', ''C''] \<noteq> []"
    by (simp add: vacant_def holder_def race_def)
  have fair: "\<forall>p \<in> set [''A'', ''B'', ''C'']. 3 \<le> count_list race (Resume p)"
    by (simp add: race_def)
  from C1_mutual_exclusion [of 10 vacant "''job-x''" race "[''A'', ''B'', ''C'']" "\<lambda>_. []"] pre fair
  have ret: "\<forall>p \<in> set [''A'', ''B'', ''C'']. code (replicas ?C p) = Return"
    and led: "\<exists>w \<in> set [''A'', ''B'', ''C'']. holder (shared ?C) ''job-x'' = Some w \<and> outcome ?C w = Leading
          \<and> (\<forall>p \<in> set [''A'', ''B'', ''C'']. p \<noteq> w \<longrightarrow> outcome ?C p = Following (Some w))"
    by blast+
  from led race_outcomes(2,3) have "holder (shared ?C) ''job-x'' = Some ''B''" by auto
  with pre fair ret race_outcomes show ?thesis by simp
qed

section \<open>A negative TTL\<close>

text \<open>
  X1. A configured TTL that parses to a negative number is used as it is. With such a
  TTL a connected node never acquires a vacant key: the store rejects the conditional
  set, the failure is logged as a failed leader check, and the trigger goes to the
  follower output with a \<open>null\<close> \<open>leaderHost\<close>; the key stays vacant.
\<close>

theorem X1_negative_ttl_never_leads:
  "(\<forall>n. n < 0 \<and> parseInt (cfg_lockTTL config) = Some n \<longrightarrow>
      (\<exists>st. ClusterLeaderNode config h = Inr st \<and> lockTTL st = n))
   \<and> (isConnected (node w) \<and> redisClient (node w) \<and> lockTTL c < 0
        \<and> holder (redis w) (lockKey c) = None \<longrightarrow>
        since w (run (on_input c m) [] w) =
          [Called (SET_NX_EX (lockKey c) (hostname c) (lockTTL c)) Threw,
           Did (NodeError ''Leader check failed''),
           Called (GET (lockKey c)) NullReply,
           Called (GET (lockKey c)) NullReply,
           Did (Send None (Some (assign ''followerHost'' (JStr (hostname c))
                                (assign ''leaderHost'' JNull
                                (assign ''isLeader'' (JBool False) m))))),
           Did (Status ''yellow'' ''ring'' ''follower (leader: unknown)'')]
      \<and> redis (run (on_input c m) [] w) = redis w)"
  by (auto simp: ClusterLeaderNode_def on_input_def checkLeadership_def refreshLeadership_def
      route_def since_def call_def quiet_def to_js_def truthy_def reply_text_def)

theorem X1_witness:
  "parseInt (CfgString ''-5'') = Some (- 5)
   \<and> ClusterLeaderNode \<lparr>cfg_lockKey = None, cfg_lockTTL = CfgString ''-5''\<rparr>
                       \<lparr>env_HOSTNAME = Some ''A'', os_hostname = ''box''\<rparr>
       = Inr \<lparr>lockKey = ''nodered:leader'', lockTTL = - 5, hostname = ''A''\<rparr>
   \<and> isConnected (node (boot vacant)) \<and> redisClient (node (boot vacant))
   \<and> lockTTL (cfgA\<lparr>lockTTL := - 5\<rparr>) < 0
   \<and> holder (redis (boot vacant)) (lockKey (cfgA\<lparr>lockTTL := - 5\<rparr>)) = None
   \<and> verdict_of (effects (history (run (on_input (cfgA\<lparr>lockTTL := - 5\<rparr>) []) [] (boot vacant))))
       = Following None"
proof -
  have p: "parseInt (CfgString ''-5'') = Some (- 5)"
    by (simp add: parseInt_def unsigned_value_def digits_value_def digit_of_def is_space_def)
  have q: "isConnected (node (boot vacant)) \<and> redisClient (node (boot vacant))
   \<and> lockTTL (cfgA\<lparr>lockTTL := - 5\<rparr>) < 0
   \<and> holder (redis (boot vacant)) (lockKey (cfgA\<lparr>lockTTL := - 5\<rparr>)) = None"
    by (simp add: boot_def online_def vacant_def holder_def cfgA_def)
  have s: "since (boot vacant) w' = history w'" for w'
    by (simp add: since_def boot_def)
  from X1_negative_ttl_never_leads [of "\<lparr>cfg_lockKey = None, cfg_lockTTL = CfgString ''-5''\<rparr>"
      "\<lparr>env_HOSTNAME = Some ''A'', os_hostname = ''box''\<rparr>" "boot vacant"
      "cfgA\<lparr>lockTTL := - 5\<rparr>" "[]"] p q
  show ?thesis by (simp add: s ClusterLeaderNode_def or_else_def named_leader_def)
qed

end
